theory Spec2Isabelle
  imports Complex_Main "HOL-Library.Log_Nat"
begin

section \<open>Time values and the calendar\<close>

text \<open>
  A JavaScript \<open>Date\<close> holds a time value: the milliseconds since 1970-01-01T00:00Z.
  Time values and the timestamps of the entries are integers here. The calendar
  operations below are the abstract operations of the ECMAScript specification
  (\<open>Day\<close>, \<open>TimeWithinDay\<close>, \<open>DayFromYear\<close>, \<open>YearFromTime\<close>, \<open>MonthFromTime\<close>,
  \<open>DateFromTime\<close>, \<open>WeekDay\<close>, \<open>MakeTime\<close>, \<open>MakeDay\<close>, \<open>MakeDate\<close>, \<open>LocalTime\<close>, \<open>UTC\<close>)
  which the methods of \<open>Date\<close> are defined by. The local time zone is the parameter
  \<open>tz\<close>: its offset from UTC in milliseconds and the instants at which the offset
  changes (daylight-saving time, a change of rule). Invalid dates (a time value
  beyond 8.64e15 in magnitude) are outside the model.
\<close>

definition msPerDay :: int where
  "msPerDay = 86400000"

definition Day :: "int \<Rightarrow> int" where
  "Day t = t div msPerDay"

definition TimeWithinDay :: "int \<Rightarrow> int" where
  "TimeWithinDay t = t mod msPerDay"

definition DaysInYear :: "int \<Rightarrow> int" where
  "DaysInYear y =
     (if y mod 4 \<noteq> 0 then 365
      else if y mod 100 \<noteq> 0 then 366
      else if y mod 400 \<noteq> 0 then 365
      else 366)"

definition DayFromYear :: "int \<Rightarrow> int" where
  "DayFromYear y =
     365 * (y - 1970) + (y - 1969) div 4 - (y - 1901) div 100 + (y - 1601) div 400"

text \<open>
  \<open>YearFromTime t\<close> is the largest year whose first day is not after \<open>t\<close>. It is
  computed from an estimate that is off by one year at most.
\<close>

definition YearFromDay :: "int \<Rightarrow> int" where
  "YearFromDay d =
     (let y = 1970 + (400 * d) div 146097
      in if d < DayFromYear y then y - 1
         else if DayFromYear (y + 1) \<le> d then y + 1
         else y)"

definition YearFromTime :: "int \<Rightarrow> int" where
  "YearFromTime t = YearFromDay (Day t)"

definition InLeapYear :: "int \<Rightarrow> int" where
  "InLeapYear t = (if DaysInYear (YearFromTime t) = 366 then 1 else 0)"

definition DayWithinYear :: "int \<Rightarrow> int" where
  "DayWithinYear t = Day t - DayFromYear (YearFromTime t)"

text \<open>The day of the year on which month \<open>m\<close> (0 to 11) starts; \<open>l\<close> is 1 in a leap year.\<close>

definition monthStartDay :: "int \<Rightarrow> int \<Rightarrow> int" where
  "monthStartDay m l =
     (if m = 0 then 0 else if m = 1 then 31 else if m = 2 then 59 + l
      else if m = 3 then 90 + l else if m = 4 then 120 + l else if m = 5 then 151 + l
      else if m = 6 then 181 + l else if m = 7 then 212 + l else if m = 8 then 243 + l
      else if m = 9 then 273 + l else if m = 10 then 304 + l else 334 + l)"

definition MonthFromTime :: "int \<Rightarrow> int" where
  "MonthFromTime t =
     (let d = DayWithinYear t; l = InLeapYear t
      in if d < 31 then 0 else if d < 59 + l then 1 else if d < 90 + l then 2
         else if d < 120 + l then 3 else if d < 151 + l then 4 else if d < 181 + l then 5
         else if d < 212 + l then 6 else if d < 243 + l then 7 else if d < 273 + l then 8
         else if d < 304 + l then 9 else if d < 334 + l then 10 else 11)"

definition DateFromTime :: "int \<Rightarrow> int" where
  "DateFromTime t = DayWithinYear t - monthStartDay (MonthFromTime t) (InLeapYear t) + 1"

definition WeekDay :: "int \<Rightarrow> int" where
  "WeekDay t = (Day t + 4) mod 7"

definition MakeTime :: "int \<Rightarrow> int \<Rightarrow> int \<Rightarrow> int \<Rightarrow> int" where
  "MakeTime h m s ms = h * 3600000 + m * 60000 + s * 1000 + ms"

definition MakeDay :: "int \<Rightarrow> int \<Rightarrow> int \<Rightarrow> int" where
  "MakeDay year month date =
     (let ym = year + month div 12; mn = month mod 12
      in DayFromYear ym + monthStartDay mn (if DaysInYear ym = 366 then 1 else 0) + date - 1)"

definition MakeDate :: "int \<Rightarrow> int \<Rightarrow> int" where
  "MakeDate day time = day * msPerDay + time"

subsection \<open>The local time zone\<close>

text \<open>
  A zone is the offset in force before its first change and the list of its
  changes, each the instant of the change (in UTC) and the offset from then on, in
  the order of time. \<open>LocalTZA z t True\<close> is the offset in force at the instant
  \<open>t\<close>, and \<open>LocalTZA z t False\<close> is the offset of the local time \<open>t\<close>: a local time
  that occurs twice (the offset drops) or never (the offset rises) takes the
  offset before the change, as the ECMAScript specification asks.
\<close>

record zone =
  zone_offset :: int
  zone_changes :: "(int \<times> int) list"

fun offsetAt :: "int \<Rightarrow> (int \<times> int) list \<Rightarrow> int \<Rightarrow> int" where
  "offsetAt off [] t = off"
| "offsetAt off ((change, off') # cs) t = (if t < change then off else offsetAt off' cs t)"

fun offsetOfLocal :: "int \<Rightarrow> (int \<times> int) list \<Rightarrow> int \<Rightarrow> int" where
  "offsetOfLocal off [] t = off"
| "offsetOfLocal off ((change, off') # cs) t =
     (if t - off < change \<or> t - off' < change then off else offsetOfLocal off' cs t)"

definition LocalTZA :: "zone \<Rightarrow> int \<Rightarrow> bool \<Rightarrow> int" where
  "LocalTZA z t isUTC =
     (if isUTC then offsetAt (zone_offset z) (zone_changes z) t
      else offsetOfLocal (zone_offset z) (zone_changes z) t)"

definition LocalTime :: "zone \<Rightarrow> int \<Rightarrow> int" where
  "LocalTime tz t = t + LocalTZA tz t True"

definition UTC :: "zone \<Rightarrow> int \<Rightarrow> int" where
  "UTC tz t = t - LocalTZA tz t False"

text \<open>
  A zone whose offset never changes; the offsets that a zone has; and the zones
  whose offsets differ by less than a day from one another. A zone that skips or
  repeats a whole calendar day is not one of these: there a step of one local day
  need not move the instant.
\<close>

definition fixedZone :: "int \<Rightarrow> zone" where
  "fixedZone off = \<lparr> zone_offset = off, zone_changes = [] \<rparr>"

definition offsets :: "zone \<Rightarrow> int list" where
  "offsets z = zone_offset z # map snd (zone_changes z)"

definition withinADay :: "zone \<Rightarrow> bool" where
  "withinADay z = list_all (\<lambda>a. list_all (\<lambda>b. a - b < msPerDay) (offsets z)) (offsets z)"

subsection \<open>The methods of Date that the program calls\<close>

definition getDay :: "zone \<Rightarrow> int \<Rightarrow> int" where
  "getDay tz t = WeekDay (LocalTime tz t)"

definition getDate :: "zone \<Rightarrow> int \<Rightarrow> int" where
  "getDate tz t = DateFromTime (LocalTime tz t)"

definition getMonth :: "zone \<Rightarrow> int \<Rightarrow> int" where
  "getMonth tz t = MonthFromTime (LocalTime tz t)"

definition getFullYear :: "zone \<Rightarrow> int \<Rightarrow> int" where
  "getFullYear tz t = YearFromTime (LocalTime tz t)"

definition setDate :: "zone \<Rightarrow> int \<Rightarrow> int \<Rightarrow> int" where
  "setDate tz t dt =
     (let lt = LocalTime tz t
      in UTC tz (MakeDate (MakeDay (YearFromTime lt) (MonthFromTime lt) dt) (TimeWithinDay lt)))"

definition setHours :: "zone \<Rightarrow> int \<Rightarrow> int \<Rightarrow> int \<Rightarrow> int \<Rightarrow> int \<Rightarrow> int" where
  "setHours tz t h m s ms = UTC tz (MakeDate (Day (LocalTime tz t)) (MakeTime h m s ms))"

text \<open>\<open>new Date(y, m, d, h, mi, s, ms)\<close>: local time; a year from 0 to 99 means 1900 + y.\<close>

definition newDate :: "zone \<Rightarrow> int \<Rightarrow> int \<Rightarrow> int \<Rightarrow> int \<Rightarrow> int \<Rightarrow> int \<Rightarrow> int \<Rightarrow> int" where
  "newDate tz y m d h mi s ms =
     (let yr = (if 0 \<le> y \<and> y \<le> 99 then 1900 + y else y)
      in UTC tz (MakeDate (MakeDay yr m d) (MakeTime h mi s ms)))"

text \<open>
  \<open>getISODate\<close>: \<open>toISOString().split('T')[0]\<close>, the calendar date in UTC. The
  year is written with four digits from 0 to 9999 and with a sign and six digits
  otherwise.
\<close>

definition digit :: "int \<Rightarrow> char" where
  "digit n = ''0123456789'' ! nat (n mod 10)"

definition pad2 :: "int \<Rightarrow> string" where
  "pad2 n = [digit (n div 10), digit n]"

definition pad4 :: "int \<Rightarrow> string" where
  "pad4 n = [digit (n div 1000), digit (n div 100), digit (n div 10), digit n]"

definition pad6 :: "int \<Rightarrow> string" where
  "pad6 n = [digit (n div 100000), digit (n div 10000), digit (n div 1000),
             digit (n div 100), digit (n div 10), digit n]"

definition isoYear :: "int \<Rightarrow> string" where
  "isoYear y =
     (if 0 \<le> y \<and> y \<le> 9999 then pad4 y
      else (if y < 0 then CHR ''-'' else CHR ''+'') # pad6 \<bar>y\<bar>)"

definition getISODate :: "int \<Rightarrow> string" where
  "getISODate t =
     isoYear (YearFromTime t) @ ''-'' @ pad2 (MonthFromTime t + 1) @ ''-'' @ pad2 (DateFromTime t)"

text \<open>
  \<open>new Date(dateStr)\<close> for a date-only string: midnight UTC of that date. The
  program passes the strings of \<open>getISODate\<close> only; any other string is an
  invalid date here (\<open>None\<close>).
\<close>

definition digitVal :: "char \<Rightarrow> int option" where
  "digitVal c =
     (let n = (of_char c :: nat) in if 48 \<le> n \<and> n \<le> 57 then Some (int n - 48) else None)"

fun number :: "int \<Rightarrow> string \<Rightarrow> int option" where
  "number acc [] = Some acc"
| "number acc (c # cs) =
     (case digitVal c of None \<Rightarrow> None | Some v \<Rightarrow> number (10 * acc + v) cs)"

definition parseYMD :: "int \<Rightarrow> string \<Rightarrow> string \<Rightarrow> string \<Rightarrow> int option" where
  "parseYMD sign ys ms ds =
     (case (number 0 ys, number 0 ms, number 0 ds) of
        (Some y, Some m, Some d) \<Rightarrow>
          if 1 \<le> m \<and> m \<le> 12 \<and> 1 \<le> d \<and> d \<le> 31
          then Some (MakeDate (MakeDay (sign * y) (m - 1) d) 0)
          else None
      | _ \<Rightarrow> None)"

definition parseDate :: "string \<Rightarrow> int option" where
  "parseDate s =
     (if length s = 10 \<and> s ! 4 = CHR ''-'' \<and> s ! 7 = CHR ''-''
      then parseYMD 1 (take 4 s) (take 2 (drop 5 s)) (drop 8 s)
      else if length s = 13 \<and> (s ! 0 = CHR ''+'' \<or> s ! 0 = CHR ''-'')
              \<and> s ! 7 = CHR ''-'' \<and> s ! 10 = CHR ''-''
      then parseYMD (if s ! 0 = CHR ''-'' then - 1 else 1)
             (take 6 (drop 1 s)) (take 2 (drop 8 s)) (drop 11 s)
      else None)"

section \<open>Period boundaries\<close>

definition getDayStart :: "zone \<Rightarrow> int \<Rightarrow> int" where
  "getDayStart tz date = setHours tz date 0 0 0 0"

definition getDayEnd :: "zone \<Rightarrow> int \<Rightarrow> int" where
  "getDayEnd tz date = setHours tz date 23 59 59 999"

definition getWeekStart :: "zone \<Rightarrow> int \<Rightarrow> int" where
  "getWeekStart tz date =
     (let d = date;
          day = getDay tz d;
          diff = getDate tz d - day + (if day = 0 then - 6 else 1);
          d1 = setDate tz d diff
      in setHours tz d1 0 0 0 0)"

definition getWeekEnd :: "zone \<Rightarrow> int \<Rightarrow> int" where
  "getWeekEnd tz date =
     (let start = getWeekStart tz date;
          end1 = setDate tz start (getDate tz start + 6)
      in setHours tz end1 23 59 59 999)"

definition getMonthStart :: "zone \<Rightarrow> int \<Rightarrow> int" where
  "getMonthStart tz date = newDate tz (getFullYear tz date) (getMonth tz date) 1 0 0 0 0"

definition getMonthEnd :: "zone \<Rightarrow> int \<Rightarrow> int" where
  "getMonthEnd tz date = newDate tz (getFullYear tz date) (getMonth tz date + 1) 0 23 59 59 999"

definition getYearStart :: "zone \<Rightarrow> int \<Rightarrow> int" where
  "getYearStart tz date = newDate tz (getFullYear tz date) 0 1 0 0 0 0"

definition getYearEnd :: "zone \<Rightarrow> int \<Rightarrow> int" where
  "getYearEnd tz date = newDate tz (getFullYear tz date) 11 31 23 59 59 999"

definition getPeriodRange :: "zone \<Rightarrow> string \<Rightarrow> int \<Rightarrow> int \<times> int" where
  "getPeriodRange tz period date =
     (if period = ''day'' then (getDayStart tz date, getDayEnd tz date)
      else if period = ''week'' then (getWeekStart tz date, getWeekEnd tz date)
      else if period = ''month'' then (getMonthStart tz date, getMonthEnd tz date)
      else if period = ''year'' then (getYearStart tz date, getYearEnd tz date)
      else (getDayStart tz date, getDayEnd tz date))"

section \<open>The data model\<close>

text \<open>
  A time entry is \<open>{ start, end }\<close>, with \<open>end = null\<close> while the timer runs. An
  activity is \<open>{ type, entries, checks }\<close>; \<open>entries\<close> and \<open>checks\<close> may be missing
  (\<open>undefined\<close>). The checks object maps a date string to a value that the program
  compares with \<open>true\<close>.
\<close>

record entry =
  entry_start :: int
  entry_end :: "int option"

record activity =
  activity_type :: string
  activity_entries :: "entry list option"
  activity_checks :: "(string \<rightharpoonup> bool) option"

section \<open>Aggregation of the main process (main.js)\<close>

text \<open>
  \<open>calculateTimeInRange(entries, rangeStart, rangeEnd)\<close>: the callback of
  \<open>entries.reduce\<close> and the reduction from 0.
\<close>

definition overlapStep :: "int \<Rightarrow> int \<Rightarrow> entry \<Rightarrow> int \<Rightarrow> int" where
  "overlapStep rangeStart rangeEnd e totalMs =
     (case entry_end e of
        None \<Rightarrow> totalMs
      | Some entryEnd \<Rightarrow>
          let entryStart = entry_start e
          in if entryEnd < rangeStart \<or> entryStart > rangeEnd then totalMs
             else let overlapStart = max entryStart rangeStart;
                      overlapEnd = min entryEnd rangeEnd
                  in totalMs + (overlapEnd - overlapStart))"

definition calculateTimeInRange :: "entry list option \<Rightarrow> int \<Rightarrow> int \<Rightarrow> int" where
  "calculateTimeInRange entries rangeStart rangeEnd =
     (case entries of
        None \<Rightarrow> 0
      | Some es \<Rightarrow> if length es = 0 then 0 else fold (overlapStep rangeStart rangeEnd) es 0)"

text \<open>The entries that reach the accumulation, and the term each of them adds.\<close>

definition counted :: "int \<Rightarrow> int \<Rightarrow> entry \<Rightarrow> bool" where
  "counted rangeStart rangeEnd e =
     (case entry_end e of
        None \<Rightarrow> False
      | Some entryEnd \<Rightarrow> \<not> (entryEnd < rangeStart \<or> entry_start e > rangeEnd))"

definition overlapTerm :: "int \<Rightarrow> int \<Rightarrow> entry \<Rightarrow> int" where
  "overlapTerm rangeStart rangeEnd e =
     (case entry_end e of
        None \<Rightarrow> 0
      | Some entryEnd \<Rightarrow> min entryEnd rangeEnd - max (entry_start e) rangeStart)"




section \<open>The goal evaluation engine\<close>

text \<open>
  The activities object is a list of pairs of an id and an activity, in the order
  of its keys: \<open>activities[id]\<close> is \<open>map_of activities id\<close> and
  \<open>Object.keys(activities)\<close> is \<open>map fst activities\<close>. The keys of an object are
  distinct.
\<close>

type_synonym activities = "(string \<times> activity) list"

definition idsToCheck :: "activities \<Rightarrow> string list \<Rightarrow> string list" where
  "idsToCheck activities activityIds =
     (if length activityIds > 0 then activityIds else map fst activities)"

text \<open>
  \<open>calculateTimeInRange(activities, activityIds, rangeStart, rangeEnd)\<close> of the
  engine: one round of the loop over the ids, whose inner loop over the entries has
  the body of the reduction above.
\<close>

definition timeOfId :: "activities \<Rightarrow> int \<Rightarrow> int \<Rightarrow> string \<Rightarrow> int \<Rightarrow> int" where
  "timeOfId activities rangeStart rangeEnd ident totalMs =
     (case map_of activities ident of
        None \<Rightarrow> totalMs
      | Some a \<Rightarrow>
          if activity_type a \<noteq> ''time'' then totalMs
          else (case activity_entries a of
                  None \<Rightarrow> totalMs
                | Some es \<Rightarrow> fold (overlapStep rangeStart rangeEnd) es totalMs))"

definition calculateTimeInRange_goal :: "activities \<Rightarrow> string list \<Rightarrow> int \<Rightarrow> int \<Rightarrow> int" where
  "calculateTimeInRange_goal activities activityIds rangeStart rangeEnd =
     fold (timeOfId activities rangeStart rangeEnd) (idsToCheck activities activityIds) 0"

text \<open>
  \<open>countChecksInRange(activities, activityIds, startDate, endDate)\<close> of the engine:
  the loop over \<open>current\<close> for one activity, one round of the loop over the ids, the
  loop over the ids, and the function.
\<close>

partial_function (option) countLoop ::
    "zone \<Rightarrow> (string \<rightharpoonup> bool) \<Rightarrow> int \<Rightarrow> int \<Rightarrow> int \<Rightarrow> int option" where
  "countLoop tz checks endDate current count =
     (if current \<le> endDate
      then countLoop tz checks endDate (setDate tz current (getDate tz current + 1))
             (if checks (getISODate current) = Some True then count + 1 else count)
      else Some count)"

declare countLoop.simps [code]

definition checksOfId :: "zone \<Rightarrow> activities \<Rightarrow> int \<Rightarrow> int \<Rightarrow> string \<Rightarrow> int \<Rightarrow> int option" where
  "checksOfId tz activities startDate endDate ident count =
     (case map_of activities ident of
        None \<Rightarrow> Some count
      | Some a \<Rightarrow>
          if activity_type a \<noteq> ''check'' then Some count
          else (case activity_checks a of
                  None \<Rightarrow> Some count
                | Some cs \<Rightarrow> countLoop tz cs endDate startDate count))"

fun countIds :: "zone \<Rightarrow> activities \<Rightarrow> int \<Rightarrow> int \<Rightarrow> string list \<Rightarrow> int \<Rightarrow> int option" where
  "countIds tz activities startDate endDate [] count = Some count"
| "countIds tz activities startDate endDate (ident # ids) count =
     (case checksOfId tz activities startDate endDate ident count of
        None \<Rightarrow> None
      | Some count' \<Rightarrow> countIds tz activities startDate endDate ids count')"

definition countChecksInRange_goal ::
    "zone \<Rightarrow> activities \<Rightarrow> string list \<Rightarrow> int \<Rightarrow> int \<Rightarrow> int option" where
  "countChecksInRange_goal tz activities activityIds startDate endDate =
     countIds tz activities startDate endDate
       (if length activityIds > 0 then activityIds
        else filter (\<lambda>ident. case map_of activities ident of
                                None \<Rightarrow> False
                              | Some a \<Rightarrow> activity_type a = ''check'')
               (map fst activities))
       0"

text \<open>
  \<open>dayHasActivity(activities, activityIds, dateStr, streakType)\<close>. An invalid
  \<open>date\<close> gives \<open>NaN\<close> for \<open>dayStart\<close> and \<open>dayEnd\<close>, and every comparison with
  \<open>NaN\<close> is false.
\<close>

fun entryInDay :: "int option \<Rightarrow> int option \<Rightarrow> entry list \<Rightarrow> bool" where
  "entryInDay dayStart dayEnd [] = False"
| "entryInDay dayStart dayEnd (e # es) =
     (case (entry_end e, dayStart, dayEnd) of
        (Some entryEnd, Some ds, Some de) \<Rightarrow>
          if entryEnd \<ge> ds \<and> entry_start e \<le> de then True
          else entryInDay dayStart dayEnd es
      | _ \<Rightarrow> entryInDay dayStart dayEnd es)"

fun timeInDay :: "activities \<Rightarrow> int option \<Rightarrow> int option \<Rightarrow> string list \<Rightarrow> bool" where
  "timeInDay activities dayStart dayEnd [] = False"
| "timeInDay activities dayStart dayEnd (ident # ids) =
     (case map_of activities ident of
        None \<Rightarrow> timeInDay activities dayStart dayEnd ids
      | Some a \<Rightarrow>
          if activity_type a \<noteq> ''time'' then timeInDay activities dayStart dayEnd ids
          else (case activity_entries a of
                  None \<Rightarrow> timeInDay activities dayStart dayEnd ids
                | Some es \<Rightarrow>
                    if entryInDay dayStart dayEnd es then True
                    else timeInDay activities dayStart dayEnd ids))"

fun checkInDay :: "activities \<Rightarrow> string \<Rightarrow> string list \<Rightarrow> bool" where
  "checkInDay activities dateStr [] = False"
| "checkInDay activities dateStr (ident # ids) =
     (case map_of activities ident of
        None \<Rightarrow> checkInDay activities dateStr ids
      | Some a \<Rightarrow>
          if activity_type a \<noteq> ''check'' then checkInDay activities dateStr ids
          else (case activity_checks a of
                  None \<Rightarrow> checkInDay activities dateStr ids
                | Some cs \<Rightarrow>
                    if cs dateStr = Some True then True
                    else checkInDay activities dateStr ids))"

definition dayHasActivity :: "zone \<Rightarrow> activities \<Rightarrow> string list \<Rightarrow> string \<Rightarrow> string \<Rightarrow> bool" where
  "dayHasActivity tz activities activityIds dateStr streakType =
     (let date = parseDate dateStr;
          dayStart = map_option (getDayStart tz) date;
          dayEnd = map_option (getDayEnd tz) date
      in if streakType = ''time''
         then timeInDay activities dayStart dayEnd (idsToCheck activities activityIds)
         else checkInDay activities dateStr (idsToCheck activities activityIds))"

text \<open>
  \<open>calculateStreak(activities, activityIds, streakType)\<close>: the loop \<open>while (true)\<close>
  over \<open>current\<close> and \<open>streak\<close>, where \<open>None\<close> is a loop that does not end, and the
  function, which starts it at \<open>today\<close>, the value of the clock.
\<close>

partial_function (option) streakLoop ::
    "zone \<Rightarrow> activities \<Rightarrow> string list \<Rightarrow> string \<Rightarrow> int \<Rightarrow> int \<Rightarrow> int \<Rightarrow> int option" where
  "streakLoop tz activities activityIds streakType today current streak =
     (if dayHasActivity tz activities activityIds (getISODate current) streakType
      then
        (if (today - setDate tz current (getDate tz current - 1)) div (1000 * 60 * 60 * 24) > 365
         then Some (streak + 1)
         else streakLoop tz activities activityIds streakType today
                (setDate tz current (getDate tz current - 1)) (streak + 1))
      else if streak = 0
              \<and> dayHasActivity tz activities activityIds
                   (getISODate (setDate tz current (getDate tz current - 1))) streakType
      then streakLoop tz activities activityIds streakType today
             (setDate tz (setDate tz current (getDate tz current - 1))
                (getDate tz (setDate tz current (getDate tz current - 1)) - 1))
             (streak + 1)
      else Some streak)"

declare streakLoop.simps [code]

definition calculateStreak :: "zone \<Rightarrow> int \<Rightarrow> activities \<Rightarrow> string list \<Rightarrow> string \<Rightarrow> int option" where
  "calculateStreak tz today activities activityIds streakType =
     streakLoop tz activities activityIds streakType today today 0"

text \<open>
  For the statements about the streak: the instant that the loop reaches from
  \<open>today\<close> in \<open>k\<close> steps back (\<open>walk\<close>); whether that instant has activity, under the
  date string the loop computes for it (\<open>qualifies\<close>); whether the safety limit
  stops the loop there (\<open>far\<close>); and the number of steps in a row that have activity,
  from step \<open>k\<close> on over \<open>n\<close> steps at most, up to the safety limit (\<open>runUntil\<close>).
\<close>

fun walk :: "zone \<Rightarrow> int \<Rightarrow> nat \<Rightarrow> int" where
  "walk tz today 0 = today"
| "walk tz today (Suc k) = setDate tz (walk tz today k) (getDate tz (walk tz today k) - 1)"

definition qualifies :: "zone \<Rightarrow> int \<Rightarrow> activities \<Rightarrow> string list \<Rightarrow> string \<Rightarrow> nat \<Rightarrow> bool" where
  "qualifies tz today activities activityIds streakType k =
     dayHasActivity tz activities activityIds (getISODate (walk tz today k)) streakType"

definition far :: "zone \<Rightarrow> int \<Rightarrow> nat \<Rightarrow> bool" where
  "far tz today k = ((today - walk tz today k) div (1000 * 60 * 60 * 24) > 365)"

fun runUntil :: "(nat \<Rightarrow> bool) \<Rightarrow> (nat \<Rightarrow> bool) \<Rightarrow> nat \<Rightarrow> nat \<Rightarrow> nat" where
  "runUntil q stop k 0 = 0"
| "runUntil q stop k (Suc n) =
     (if q k then (if stop (Suc k) then 1 else Suc (runUntil q stop (Suc k) n)) else 0)"



definition everyDay :: activities where
  "everyDay =
     [(''a'', \<lparr> activity_type = ''check'', activity_entries = None,
                activity_checks = Some (\<lambda>dateStr. Some True) \<rparr>)]"

text \<open>
  Two zones for the examples. New York: five hours behind UTC, four in summer,
  with the changes of 2023-03-12, 2023-11-05, 2024-03-10 and 2024-11-03. Berlin:
  one hour ahead of UTC, two in summer, with the changes of 2024-03-31 and
  2024-10-27.
\<close>

definition newYork :: zone where
  "newYork =
     \<lparr> zone_offset = - 18000000,
       zone_changes = [(1678604400000, - 14400000), (1699164000000, - 18000000),
                       (1710054000000, - 14400000), (1730613600000, - 18000000)] \<rparr>"


subsection \<open>Numbers\<close>

text \<open>
  A JavaScript number is a double. A finite one is the rational it denotes; the
  result of a division or a multiplication is the nearest double, ties to the even
  significand (\<open>fl\<close>, with 53 bits of significand; the exponent has no bounds
  here, and the quotients of the integers of the program reach none). The
  timestamps, totals, counts and targets of the program are integers, which are
  doubles as long as they are below 2 ^ 53 in magnitude. The two zeros are one
  value.
\<close>

datatype jsnum = Finite rat | PosInfinity | NegInfinity | NaN

definition roundEven :: "rat \<Rightarrow> int" where
  "roundEven x =
     (let f = \<lfloor>x\<rfloor>; r = x - of_int f
      in if r < 1 / 2 then f else if r > 1 / 2 then f + 1 else if even f then f else f + 1)"

text \<open>The exponent \<open>e\<close> of a positive rational: \<open>2 ^ e \<le> x < 2 ^ (e + 1)\<close>.\<close>

definition exponent :: "rat \<Rightarrow> int" where
  "exponent x =
     (let e = bitlen (fst (quotient_of x)) - bitlen (snd (quotient_of x))
      in if 2 powi e \<le> x then e else e - 1)"

definition fl :: "rat \<Rightarrow> rat" where
  "fl x =
     (if x = 0 then 0
      else let u = 2 powi (exponent \<bar>x\<bar> - 52)
           in sgn x * of_int (roundEven (\<bar>x\<bar> / u)) * u)"

definition divide_js :: "int \<Rightarrow> int \<Rightarrow> jsnum" where
  "divide_js a b =
     (if b = 0 then (if a = 0 then NaN else if a > 0 then PosInfinity else NegInfinity)
      else Finite (fl (of_int a / of_int b)))"

definition times_js :: "jsnum \<Rightarrow> int \<Rightarrow> jsnum" where
  "times_js x k =
     (case x of
        Finite r \<Rightarrow> Finite (fl (r * of_int k))
      | PosInfinity \<Rightarrow> (if k = 0 then NaN else if k > 0 then PosInfinity else NegInfinity)
      | NegInfinity \<Rightarrow> (if k = 0 then NaN else if k > 0 then NegInfinity else PosInfinity)
      | NaN \<Rightarrow> NaN)"

definition Math_round :: "jsnum \<Rightarrow> jsnum" where
  "Math_round x = (case x of Finite r \<Rightarrow> Finite (of_int \<lfloor>r + 1 / 2\<rfloor>) | _ \<Rightarrow> x)"

definition Math_min :: "int \<Rightarrow> jsnum \<Rightarrow> jsnum" where
  "Math_min k x =
     (case x of
        Finite r \<Rightarrow> Finite (min (of_int k) r)
      | PosInfinity \<Rightarrow> Finite (of_int k)
      | NegInfinity \<Rightarrow> NegInfinity
      | NaN \<Rightarrow> NaN)"

text \<open>\<open>Math.floor(totalMs / 60000)\<close>, where \<open>totalMs\<close> is an integer.\<close>

definition minutesOf :: "int \<Rightarrow> int" where
  "minutesOf totalMs = \<lfloor>fl (of_int totalMs / 60000)\<rfloor>"

text \<open>\<open>Math.min(100, Math.round((current / target) * 100))\<close>, as the three evaluators write it.\<close>

definition percentage :: "int \<Rightarrow> int \<Rightarrow> jsnum" where
  "percentage current target = Math_min 100 (Math_round (times_js (divide_js current target) 100))"

subsection \<open>Goals and their evaluation\<close>

record config =
  activityId :: "string option"
  targetMinutes :: int
  targetCount :: int
  targetDays :: int
  period :: string

record goal =
  goal_type :: string
  goal_config :: config

record evaluation =
  achieved :: bool
  current :: int
  target :: int
  progressPercentage :: jsnum
  unit :: string

text \<open>\<open>config.activityId ? [config.activityId] : []\<close>; the empty string is falsy.\<close>

definition activityIdsOf :: "config \<Rightarrow> string list" where
  "activityIdsOf c =
     (case activityId c of None \<Rightarrow> [] | Some ident \<Rightarrow> if ident = [] then [] else [ident])"

definition evaluateTimeGoal :: "zone \<Rightarrow> int \<Rightarrow> goal \<Rightarrow> activities \<Rightarrow> evaluation" where
  "evaluateTimeGoal tz now g activities =
     (let c = goal_config g;
          (start, end1) = getPeriodRange tz (period c) now;
          activityIds = activityIdsOf c;
          totalMs = calculateTimeInRange_goal activities activityIds start end1;
          currentMinutes = minutesOf totalMs;
          tm = targetMinutes c
      in \<lparr> achieved = (currentMinutes \<ge> tm),
           current = currentMinutes,
           target = tm,
           progressPercentage = percentage currentMinutes tm,
           unit = ''minutes'' \<rparr>)"

definition evaluateCountGoal :: "zone \<Rightarrow> int \<Rightarrow> goal \<Rightarrow> activities \<Rightarrow> evaluation option" where
  "evaluateCountGoal tz now g activities =
     (let c = goal_config g;
          (start, end1) = getPeriodRange tz (period c) now;
          activityIds = activityIdsOf c;
          tc = targetCount c
      in case countChecksInRange_goal tz activities activityIds start end1 of
           None \<Rightarrow> None
         | Some currentCount \<Rightarrow>
             Some \<lparr> achieved = (currentCount \<ge> tc),
                    current = currentCount,
                    target = tc,
                    progressPercentage = percentage currentCount tc,
                    unit = ''completions'' \<rparr>)"

definition evaluateStreakGoal :: "zone \<Rightarrow> int \<Rightarrow> goal \<Rightarrow> activities \<Rightarrow> evaluation option" where
  "evaluateStreakGoal tz now g activities =
     (let c = goal_config g;
          activityIds = activityIdsOf c;
          act = (case activityIdsOf c of [] \<Rightarrow> None | ident # _ \<Rightarrow> map_of activities ident);
          streakType = (case act of None \<Rightarrow> ''check'' | Some a \<Rightarrow> activity_type a);
          ts = targetDays c
      in case calculateStreak tz now activities activityIds streakType of
           None \<Rightarrow> None
         | Some currentStreak \<Rightarrow>
             Some \<lparr> achieved = (currentStreak \<ge> ts),
                    current = currentStreak,
                    target = ts,
                    progressPercentage = percentage currentStreak ts,
                    unit = ''days'' \<rparr>)"

definition evaluateGoal :: "zone \<Rightarrow> int \<Rightarrow> goal \<Rightarrow> activities \<Rightarrow> evaluation option" where
  "evaluateGoal tz now g activities =
     (if goal_type g = ''time'' then Some (evaluateTimeGoal tz now g activities)
      else if goal_type g = ''count'' then evaluateCountGoal tz now g activities
      else if goal_type g = ''streak'' then evaluateStreakGoal tz now g activities
      else Some \<lparr> achieved = False, current = 0, target = 0,
                  progressPercentage = Finite 0, unit = ''unknown'' \<rparr>)"

text \<open>
  For the statements about the evaluation of a time goal: the total that
  \<open>evaluateTimeGoal\<close> passes to \<open>Math.floor(totalMs / 60000)\<close>; and for the
  examples, a time goal over the day for the activity \<open>a\<close>, and the activities with
  one entry of \<open>a\<close>.
\<close>

definition trackedMs :: "zone \<Rightarrow> int \<Rightarrow> goal \<Rightarrow> activities \<Rightarrow> int" where
  "trackedMs tz now g activities =
     calculateTimeInRange_goal activities (activityIdsOf (goal_config g))
       (fst (getPeriodRange tz (period (goal_config g)) now))
       (snd (getPeriodRange tz (period (goal_config g)) now))"

definition dayGoal :: "int \<Rightarrow> goal" where
  "dayGoal t =
     \<lparr> goal_type = ''time'',
       goal_config = \<lparr> activityId = Some ''a'', targetMinutes = t, targetCount = 0,
                       targetDays = 0, period = ''day'' \<rparr> \<rparr>"

definition oneEntry :: "int \<Rightarrow> int \<Rightarrow> activities" where
  "oneEntry s e =
     [(''a'', \<lparr> activity_type = ''time'',
                activity_entries = Some [\<lparr> entry_start = s, entry_end = Some e \<rparr>],
                activity_checks = None \<rparr>)]"

text \<open>
  For the statements about the check aggregator: the instants that the loop of
  \<open>countChecksInRange\<close> visits, over \<open>n\<close> rounds at most; the number of them whose
  date string is checked; and the date string of the local calendar day of an
  instant, which the specification names.
\<close>

function visited :: "zone \<Rightarrow> int \<Rightarrow> int \<Rightarrow> int \<Rightarrow> int list" where
  "visited tz endDate n cur =
     (if 0 < n \<and> cur \<le> endDate
      then cur # visited tz endDate (n - 1) (setDate tz cur (getDate tz cur + 1))
      else [])"
  by pat_completeness auto
termination
  by (relation "measure (\<lambda>(tz, endDate, n, cur). nat n)") auto

declare visited.simps [simp del]

definition visitedDays :: "zone \<Rightarrow> int \<Rightarrow> int \<Rightarrow> int list" where
  "visitedDays tz startDate endDate = visited tz endDate (endDate - startDate + 1) startDate"

definition checkedDays :: "zone \<Rightarrow> (string \<rightharpoonup> bool) \<Rightarrow> int \<Rightarrow> int \<Rightarrow> int" where
  "checkedDays tz checks startDate endDate =
     int (length (filter (\<lambda>t. checks (getISODate t) = Some True)
                    (visitedDays tz startDate endDate)))"


section \<open>Properties of the time-range aggregator\<close>

lemma overlapStep_eq:
  "overlapStep rs re e acc =
     acc + (if counted rs re e then overlapTerm rs re e else 0)"
  by (simp add: overlapStep_def counted_def overlapTerm_def Let_def split: option.split)

lemma fold_overlapStep:
  "fold (overlapStep rs re) es acc =
     acc + sum_list (map (overlapTerm rs re) (filter (counted rs re) es))"
  by (induction es arbitrary: acc) (simp_all add: overlapStep_eq)

lemma fold_timeOfId:
  "fold (timeOfId activities rs re) ids acc =
     acc + sum_list (map (\<lambda>ident. case map_of activities ident of
                                      None \<Rightarrow> 0
                                    | Some a \<Rightarrow>
                                        if activity_type a \<noteq> ''time'' then 0
                                        else (case activity_entries a of
                                                None \<Rightarrow> 0
                                              | Some es \<Rightarrow> fold (overlapStep rs re) es 0)) ids)"
proof (induction ids arbitrary: acc)
  case Nil
  show ?case by simp
next
  case (Cons ident ids)
  have "timeOfId activities rs re ident acc =
          acc + (case map_of activities ident of
                   None \<Rightarrow> 0
                 | Some a \<Rightarrow>
                     if activity_type a \<noteq> ''time'' then 0
                     else (case activity_entries a of
                             None \<Rightarrow> 0
                           | Some es \<Rightarrow> fold (overlapStep rs re) es 0))"
    by (simp add: timeOfId_def fold_overlapStep [of rs re _ acc] fold_overlapStep [of rs re _ 0]
        split: option.split)
  then show ?case
    using Cons.IH by (simp add: add.assoc)
qed

lemma calculateTimeInRange_fold:
  "calculateTimeInRange (Some es) rs re = fold (overlapStep rs re) es 0"
  by (cases es) (simp_all add: calculateTimeInRange_def)

text \<open>
  C2. Over a list of entries and a range, \<open>calculateTimeInRange\<close> is the sum, over
  the closed entries that the test \<open>entry.end < rangeStart || entry.start > rangeEnd\<close>
  does not skip, of \<open>min(entry.end, rangeEnd) - max(entry.start, rangeStart)\<close>; an open
  entry adds nothing, and a missing list gives 0. The function of the goal engine
  adds these sums over the ids it checks. For the entry from 10 to 20 the range
  15 to 25 gives 5, the range 0 to 5 gives 0 and a range that contains the entry
  gives 10.
\<close>

theorem calculateTimeInRange_overlap_sum:
  "calculateTimeInRange (Some es) rs re =
     sum_list (map (\<lambda>e. min (the (entry_end e)) re - max (entry_start e) rs)
                 (filter (\<lambda>e. entry_end e \<noteq> None
                               \<and> \<not> (the (entry_end e) < rs \<or> entry_start e > re)) es))
   \<and> calculateTimeInRange None rs re = 0
   \<and> calculateTimeInRange (Some (es @ [\<lparr>entry_start = s, entry_end = None\<rparr>])) rs re =
       calculateTimeInRange (Some es) rs re
   \<and> calculateTimeInRange_goal activities ids rs re =
       sum_list (map (\<lambda>ident. case map_of activities ident of
                                  None \<Rightarrow> 0
                                | Some a \<Rightarrow>
                                    if activity_type a = ''time''
                                    then calculateTimeInRange (activity_entries a) rs re else 0)
                   (idsToCheck activities ids))
   \<and> calculateTimeInRange (Some [\<lparr>entry_start = 10, entry_end = Some 20\<rparr>]) 15 25 = 5
   \<and> calculateTimeInRange (Some [\<lparr>entry_start = 10, entry_end = Some 20\<rparr>]) 0 5 = 0
   \<and> (rs \<le> 10 \<and> 20 \<le> re \<longrightarrow>
        calculateTimeInRange (Some [\<lparr>entry_start = 10, entry_end = Some 20\<rparr>]) rs re = 10)"
proof -
  have flt: "filter (counted rs re) es =
               filter (\<lambda>e. entry_end e \<noteq> None
                             \<and> \<not> (the (entry_end e) < rs \<or> entry_start e > re)) es"
    by (rule filter_cong) (auto simp: counted_def split: option.splits)
  have trm: "map (overlapTerm rs re) (filter (counted rs re) es) =
               map (\<lambda>e. min (the (entry_end e)) re - max (entry_start e) rs)
                 (filter (counted rs re) es)"
    by (rule map_cong) (auto simp: counted_def overlapTerm_def split: option.splits)
  have a: "calculateTimeInRange (Some es) rs re =
             sum_list (map (\<lambda>e. min (the (entry_end e)) re - max (entry_start e) rs)
                 (filter (\<lambda>e. entry_end e \<noteq> None
                               \<and> \<not> (the (entry_end e) < rs \<or> entry_start e > re)) es))"
    unfolding calculateTimeInRange_fold fold_overlapStep trm
    unfolding flt by simp
  have b: "calculateTimeInRange None rs re = 0"
    by (simp add: calculateTimeInRange_def)
  have c: "calculateTimeInRange (Some (es @ [\<lparr>entry_start = s, entry_end = None\<rparr>])) rs re =
             calculateTimeInRange (Some es) rs re"
    by (simp add: calculateTimeInRange_fold overlapStep_def)
  have d: "calculateTimeInRange_goal activities ids rs re =
             sum_list (map (\<lambda>ident. case map_of activities ident of
                                  None \<Rightarrow> 0
                                | Some a \<Rightarrow>
                                    if activity_type a = ''time''
                                    then calculateTimeInRange (activity_entries a) rs re else 0)
                   (idsToCheck activities ids))"
    unfolding calculateTimeInRange_goal_def fold_timeOfId
    by (simp, rule arg_cong [where f = sum_list], rule map_cong)
       (auto simp: calculateTimeInRange_def split: option.splits)
  have e: "calculateTimeInRange (Some [\<lparr>entry_start = 10, entry_end = Some 20\<rparr>]) 15 25 = 5"
    by (simp add: calculateTimeInRange_def overlapStep_def)
  have f: "calculateTimeInRange (Some [\<lparr>entry_start = 10, entry_end = Some 20\<rparr>]) 0 5 = 0"
    by (simp add: calculateTimeInRange_def overlapStep_def)
  have g: "rs \<le> 10 \<and> 20 \<le> re \<longrightarrow>
        calculateTimeInRange (Some [\<lparr>entry_start = 10, entry_end = Some 20\<rparr>]) rs re = 10"
    by (simp add: calculateTimeInRange_def overlapStep_def)
  show ?thesis
    using a b c d e f g by blast
qed

theorem calculateTimeInRange_overlap_sum_witness:
  "(0::int) \<le> 10 \<and> (20::int) \<le> 30
   \<and> calculateTimeInRange (Some [\<lparr>entry_start = 10, entry_end = Some 20\<rparr>]) 0 30 = 10"
  using calculateTimeInRange_overlap_sum [of "[]" 0 30 0 "[]" "[]"] by simp

lemma overlapTerm_nonneg:
  assumes "rs \<le> re" and "entry_end e = Some en" and "entry_start e \<le> en"
    and "counted rs re e"
  shows "0 \<le> overlapTerm rs re e"
  using assms by (simp add: overlapTerm_def counted_def min_def max_def)

lemma fold_overlapStep_nonneg:
  assumes "rs \<le> re"
    and "\<forall>e \<in> set es. \<forall>en. entry_end e = Some en \<longrightarrow> entry_start e \<le> en"
    and "0 \<le> acc"
  shows "0 \<le> fold (overlapStep rs re) es acc"
  using assms(2,3)
proof (induction es arbitrary: acc)
  case Nil
  then show ?case by simp
next
  case (Cons e es)
  have "0 \<le> overlapStep rs re e acc"
  proof (cases "counted rs re e")
    case True
    then obtain en where en: "entry_end e = Some en"
      by (auto simp: counted_def split: option.splits)
    with Cons.prems have "entry_start e \<le> en" by simp
    with en True assms(1) have "0 \<le> overlapTerm rs re e"
      by (simp add: overlapTerm_nonneg)
    with True Cons.prems(2) show ?thesis by (simp add: overlapStep_eq)
  next
    case False
    with Cons.prems(2) show ?thesis by (simp add: overlapStep_eq)
  qed
  with Cons show ?case by simp
qed

lemma fold_timeOfId_nonneg:
  assumes "rs \<le> re"
    and "\<forall>(ident, a) \<in> set activities. \<forall>es. activity_entries a = Some es \<longrightarrow>
           (\<forall>e \<in> set es. \<forall>en. entry_end e = Some en \<longrightarrow> entry_start e \<le> en)"
    and "0 \<le> acc"
  shows "0 \<le> fold (timeOfId activities rs re) ids acc"
  using assms(3)
proof (induction ids arbitrary: acc)
  case Nil
  then show ?case by simp
next
  case (Cons ident ids)
  have "0 \<le> timeOfId activities rs re ident acc"
  proof (cases "map_of activities ident")
    case None
    with Cons.prems show ?thesis by (simp add: timeOfId_def)
  next
    case (Some a)
    then have mem: "(ident, a) \<in> set activities" by (rule map_of_SomeD)
    show ?thesis
    proof (cases "activity_entries a")
      case None
      with Some Cons.prems show ?thesis by (simp add: timeOfId_def)
    next
      case (Some es)
      with mem assms(2)
      have "\<forall>e \<in> set es. \<forall>en. entry_end e = Some en \<longrightarrow> entry_start e \<le> en"
        by blast
      then have "0 \<le> fold (overlapStep rs re) es acc"
        using assms(1) Cons.prems by (simp add: fold_overlapStep_nonneg)
      with Some \<open>map_of activities ident = Some a\<close> Cons.prems show ?thesis
        by (simp add: timeOfId_def)
    qed
  qed
  then show ?case using Cons.IH by simp
qed

text \<open>
  C3, as the claim states it, fails: the entry that starts at 20 and ends at 10
  passes the test for the range 0 to 100 and adds 10 - 20.
\<close>

theorem calculateTimeInRange_negative_counterexample:
  "\<not> (10 < (0::int) \<or> 20 > (100::int))
   \<and> min 10 100 - max 20 0 = (- 10 :: int)
   \<and> calculateTimeInRange (Some [\<lparr>entry_start = 20, entry_end = Some 10\<rparr>]) 0 100 = - 10
   \<and> calculateTimeInRange_goal
       [(''a'', \<lparr>activity_type = ''time'',
                 activity_entries = Some [\<lparr>entry_start = 20, entry_end = Some 10\<rparr>],
                 activity_checks = None\<rparr>)] [] 0 100 = - 10"
  by (simp add: calculateTimeInRange_def calculateTimeInRange_goal_def idsToCheck_def
      timeOfId_def overlapStep_def)

text \<open>
  C3, amended. When the range has \<open>rangeStart \<le> rangeEnd\<close> and every closed entry
  has \<open>start \<le> end\<close>, each term \<open>min(entry.end, rangeEnd) - max(entry.start, rangeStart)\<close>
  of an entry that passes the test is at least 0, and so are the totals of
  \<open>calculateTimeInRange\<close> in the main process and in the goal engine.
\<close>

theorem calculateTimeInRange_nonneg:
  assumes "rs \<le> re"
    and "\<forall>e \<in> set es. \<forall>en. entry_end e = Some en \<longrightarrow> entry_start e \<le> en"
    and "\<forall>(ident, a) \<in> set activities. \<forall>es. activity_entries a = Some es \<longrightarrow>
           (\<forall>e \<in> set es. \<forall>en. entry_end e = Some en \<longrightarrow> entry_start e \<le> en)"
  shows "(\<forall>e \<in> set es. \<forall>en. entry_end e = Some en \<and> \<not> (en < rs \<or> entry_start e > re)
            \<longrightarrow> 0 \<le> min en re - max (entry_start e) rs)
         \<and> 0 \<le> calculateTimeInRange (Some es) rs re
         \<and> 0 \<le> calculateTimeInRange_goal activities ids rs re"
proof (intro conjI ballI allI impI)
  fix e en
  assume "e \<in> set es" and h: "entry_end e = Some en \<and> \<not> (en < rs \<or> entry_start e > re)"
  with assms(2) have "entry_start e \<le> en" by blast
  with h assms(1) show "0 \<le> min en re - max (entry_start e) rs"
    by (simp add: min_def max_def)
next
  show "0 \<le> calculateTimeInRange (Some es) rs re"
    using assms(1,2) by (simp add: calculateTimeInRange_fold fold_overlapStep_nonneg)
next
  show "0 \<le> calculateTimeInRange_goal activities ids rs re"
    unfolding calculateTimeInRange_goal_def
    using assms(1,3) by (intro fold_timeOfId_nonneg) simp_all
qed

theorem calculateTimeInRange_nonneg_witness:
  "0 \<le> calculateTimeInRange
          (Some [\<lparr>entry_start = 10, entry_end = Some 20\<rparr>, \<lparr>entry_start = 30, entry_end = None\<rparr>]) 15 25
   \<and> 0 \<le> calculateTimeInRange_goal
          [(''a'', \<lparr>activity_type = ''time'',
                    activity_entries = Some [\<lparr>entry_start = 10, entry_end = Some 20\<rparr>],
                    activity_checks = None\<rparr>)] [''a''] 15 25"
  using calculateTimeInRange_nonneg
    [of 15 25 "[\<lparr>entry_start = 10, entry_end = Some 20\<rparr>, \<lparr>entry_start = 30, entry_end = None\<rparr>]"
        "[(''a'', \<lparr>activity_type = ''time'',
                    activity_entries = Some [\<lparr>entry_start = 10, entry_end = Some 20\<rparr>],
                    activity_checks = None\<rparr>)]" "[''a'']"]
  by simp

text \<open>
  C9. A goal whose type is none of \<open>time\<close>, \<open>count\<close> and \<open>streak\<close> evaluates, for every
  clock, time zone and activities, to the neutral result; evaluation returns it
  (the result is \<open>Some\<close>).
\<close>

theorem evaluateGoal_unknown_type:
  assumes "goal_type g \<noteq> ''time''" and "goal_type g \<noteq> ''count''" and "goal_type g \<noteq> ''streak''"
  shows "evaluateGoal tz now g activities =
           Some \<lparr> achieved = False, current = 0, target = 0,
                  progressPercentage = Finite 0, unit = ''unknown'' \<rparr>"
  using assms by (simp add: evaluateGoal_def)

theorem evaluateGoal_unknown_type_witness:
  "evaluateGoal (fixedZone 0) 0
     \<lparr> goal_type = ''bogus'',
       goal_config = \<lparr> activityId = None, targetMinutes = 0, targetCount = 0,
                       targetDays = 0, period = ''day'' \<rparr> \<rparr> [] =
   Some \<lparr> achieved = False, current = 0, target = 0,
          progressPercentage = Finite 0, unit = ''unknown'' \<rparr>"
  using evaluateGoal_unknown_type
    [of "\<lparr> goal_type = ''bogus'',
          goal_config = \<lparr> activityId = None, targetMinutes = 0, targetCount = 0,
                          targetDays = 0, period = ''day'' \<rparr> \<rparr>" "fixedZone 0" 0 "[]"]
  by simp

section \<open>Properties of the calendar\<close>


lemma MonthFromTime_bounds: "0 \<le> MonthFromTime t \<and> MonthFromTime t \<le> 11"
  by (simp add: MonthFromTime_def Let_def)

lemma MakeDay_own:
  "MakeDay (YearFromTime t) (MonthFromTime t) (DateFromTime t + k) = Day t + k"
  using MonthFromTime_bounds [of t]
  by (simp add: MakeDay_def Let_def DateFromTime_def DayWithinYear_def InLeapYear_def)


lemma TimeWithinDay_add: "TimeWithinDay (t + k * msPerDay) = TimeWithinDay t"
  by (simp add: TimeWithinDay_def)

lemma Day_TimeWithinDay: "Day t * msPerDay + TimeWithinDay t = t"
  by (simp add: Day_def TimeWithinDay_def)

text \<open>
  The local time zone: the offset at an instant or of a local time is one of the
  offsets of the zone; in a zone of constant offset local time is the instant plus
  the offset.
\<close>

lemma offsetAt_mem: "offsetAt off cs t \<in> set (off # map snd cs)"
  by (induction off cs t rule: offsetAt.induct) auto

lemma offsetOfLocal_mem: "offsetOfLocal off cs t \<in> set (off # map snd cs)"
  by (induction off cs t rule: offsetOfLocal.induct) auto

lemma LocalTZA_offsets: "LocalTZA z t b \<in> set (offsets z)"
  using offsetAt_mem [of "zone_offset z" "zone_changes z" t]
    offsetOfLocal_mem [of "zone_offset z" "zone_changes z" t]
  by (simp add: LocalTZA_def offsets_def)

lemma withinADay_offsets:
  assumes "withinADay z"
  shows "LocalTZA z t b - LocalTZA z t' b' < msPerDay"
  using assms LocalTZA_offsets [of z t b] LocalTZA_offsets [of z t' b']
  unfolding withinADay_def list_all_iff by blast

lemma withinADay_fixedZone: "withinADay (fixedZone off)"
  by (simp add: withinADay_def fixedZone_def offsets_def msPerDay_def)

lemma LocalTime_fixed: "LocalTime (fixedZone off) t = t + off"
  by (simp add: LocalTime_def LocalTZA_def fixedZone_def)

lemma UTC_fixed: "UTC (fixedZone off) t = t - off"
  by (simp add: UTC_def LocalTZA_def fixedZone_def)

text \<open>
  \<open>setDate(getDate() + k)\<close> moves the local time by \<open>k\<close> days and keeps the time of
  day. In a zone whose offsets differ by less than a day, a step of one day
  forwards or backwards goes to a later or an earlier instant; in a zone of
  constant offset the step is 24 hours.
\<close>

lemma setDate_local: "setDate z t (getDate z t + k) = UTC z (LocalTime z t + k * msPerDay)"
proof -
  have "MakeDate (Day (LocalTime z t) + k) (TimeWithinDay (LocalTime z t)) =
          LocalTime z t + k * msPerDay"
    using Day_TimeWithinDay [of "LocalTime z t"] by (simp add: MakeDate_def algebra_simps)
  then show ?thesis
    by (simp add: setDate_def getDate_def Let_def MakeDay_own)
qed

lemma setDate_next: "setDate z t (getDate z t + 1) = UTC z (LocalTime z t + msPerDay)"
  using setDate_local [of z t 1] by simp

lemma setDate_prev: "setDate z t (getDate z t - 1) = UTC z (LocalTime z t - msPerDay)"
  using setDate_local [of z t "- 1"] by simp

lemma next_day_later:
  assumes "withinADay z"
  shows "t < setDate z t (getDate z t + 1)"
  using withinADay_offsets [OF assms, of "LocalTime z t + msPerDay" False t True]
  by (simp add: setDate_next UTC_def LocalTime_def)

lemma prev_day_earlier:
  assumes "withinADay z"
  shows "setDate z t (getDate z t - 1) < t"
  using withinADay_offsets [OF assms, of t True "LocalTime z t - msPerDay" False]
  by (simp add: setDate_prev UTC_def LocalTime_def)



lemma Day_within:
  assumes "0 \<le> r" and "r < msPerDay"
  shows "Day (d * msPerDay + r) = d" and "TimeWithinDay (d * msPerDay + r) = r"
  using assms by (simp_all add: Day_def TimeWithinDay_def)

text \<open>
  The year of a day is the year whose days contain it, a year has 365 or 366 days,
  and the day of the month is between 1 and 31: the calendar of the model is the
  civil calendar.
\<close>

lemma div_bounds:
  fixes x c :: int
  assumes "0 < c"
  shows "c * (x div c) \<le> x" and "x < c * (x div c) + c"
proof -
  have "x = c * (x div c) + x mod c" by simp
  moreover have "0 \<le> x mod c" "x mod c < c" using assms by simp_all
  ultimately show "c * (x div c) \<le> x" and "x < c * (x div c) + c" by linarith+
qed

lemma DayFromYear_estimate:
  "146097 * k - 506 \<le> 400 * DayFromYear (1970 + k)
   \<and> 400 * DayFromYear (1970 + k) \<le> 146097 * k + 589"
proof -
  define a where "a = (k + 1) div 4"
  define b where "b = (k + 69) div 100"
  define c where "c = (k + 369) div 400"
  have d: "DayFromYear (1970 + k) = 365 * k + a - b + c"
    by (simp add: DayFromYear_def a_def b_def c_def add.commute)
  have "4 * a \<le> k + 1" "k + 1 < 4 * a + 4" "100 * b \<le> k + 69" "k + 69 < 100 * b + 100"
    "400 * c \<le> k + 369" "k + 369 < 400 * c + 400"
    unfolding a_def b_def c_def by (simp_all add: div_bounds)
  then have "400 * a \<le> 100 * k + 100" "- 400 * b \<le> - 4 * k + 120" "400 * c \<le> k + 369"
    "100 * k - 200 \<le> 400 * a" "- 4 * k - 276 \<le> - 400 * b" "k - 30 \<le> 400 * c"
    by linarith+
  then show ?thesis
    unfolding d by (simp add: algebra_simps)
qed

lemma YearFromDay_correct:
  "DayFromYear (YearFromDay d) \<le> d \<and> d < DayFromYear (YearFromDay d + 1)"
proof -
  define e where "e = (400 * d) div 146097"
  have e: "146097 * e \<le> 400 * d" "400 * d < 146097 * e + 146097"
    unfolding e_def by (simp_all add: div_bounds)
  have lo: "DayFromYear (1970 + e - 1) \<le> d"
    using DayFromYear_estimate [of "e - 1"] e by (simp add: algebra_simps)
  have hi: "d < DayFromYear (1970 + e + 1 + 1)"
    using DayFromYear_estimate [of "e + 2"] e by (simp add: algebra_simps)
  show ?thesis
    using lo hi by (simp add: YearFromDay_def e_def [symmetric] Let_def)
qed

lemma div_step:
  fixes x c :: int
  assumes "0 < c"
  shows "(x + 1) div c = x div c + (if (x + 1) mod c = 0 then 1 else 0)"
proof -
  define q where "q = (x + 1) div c"
  define r where "r = (x + 1) mod c"
  have eq: "x + 1 = c * q + r" and r: "0 \<le> r" "r < c"
    using assms by (simp_all add: q_def r_def)
  show ?thesis
  proof (cases "r = 0")
    case True
    have "x = c * (q - 1) + (c - 1)" using eq True by (simp add: algebra_simps)
    then have "x div c = q - 1"
      by (rule int_div_pos_eq) (use assms in simp_all)
    with True show ?thesis by (simp add: q_def [symmetric] r_def [symmetric])
  next
    case False
    have "x = c * q + (r - 1)" using eq by simp
    then have "x div c = q"
      by (rule int_div_pos_eq) (use r False in simp_all)
    with False show ?thesis by (simp add: q_def [symmetric] r_def [symmetric])
  qed
qed

lemma DayFromYear_Suc: "DayFromYear (y + 1) = DayFromYear y + DaysInYear y"
proof -
  have m4: "(y - 1969 + 1) mod 4 = y mod 4"
    using mod_mult_self2 [of y 4 "- 492"] by (simp add: algebra_simps)
  have m100: "(y - 1901 + 1) mod 100 = y mod 100"
    using mod_mult_self2 [of y 100 "- 19"] by (simp add: algebra_simps)
  have m400: "(y - 1601 + 1) mod 400 = y mod 400"
    using mod_mult_self2 [of y 400 "- 4"] by (simp add: algebra_simps)
  have a: "(y + 1 - 1969) div 4 = (y - 1969) div 4 + (if y mod 4 = 0 then 1 else 0)"
    using div_step [of 4 "y - 1969"] m4 by (simp add: algebra_simps)
  have b: "(y + 1 - 1901) div 100 = (y - 1901) div 100 + (if y mod 100 = 0 then 1 else 0)"
    using div_step [of 100 "y - 1901"] m100 by (simp add: algebra_simps)
  have c: "(y + 1 - 1601) div 400 = (y - 1601) div 400 + (if y mod 400 = 0 then 1 else 0)"
    using div_step [of 400 "y - 1601"] m400 by (simp add: algebra_simps)
  have "(100::int) dvd 400" "(4::int) dvd 100" by simp_all
  then have d: "y mod 400 = 0 \<longrightarrow> y mod 100 = 0" "y mod 100 = 0 \<longrightarrow> y mod 4 = 0"
    by (auto simp: mod_eq_0_iff_dvd dest: dvd_trans)
  show ?thesis
    unfolding DayFromYear_def a b c using d by (auto simp: DaysInYear_def)
qed

lemma DayWithinYear_bounds:
  "0 \<le> DayWithinYear t \<and> DayWithinYear t < DaysInYear (YearFromTime t)"
  using YearFromDay_correct [of "Day t"]
  by (simp add: DayWithinYear_def YearFromTime_def DayFromYear_Suc)

lemma DateFromTime_bounds: "1 \<le> DateFromTime t \<and> DateFromTime t \<le> 31"
proof -
  define d where "d = DayWithinYear t"
  define l where "l = InLeapYear t"
  have l: "l = 0 \<or> l = 1" by (simp add: l_def InLeapYear_def)
  have "DaysInYear (YearFromTime t) = 365 + l"
    by (simp add: l_def InLeapYear_def DaysInYear_def)
  with DayWithinYear_bounds [of t] have d: "0 \<le> d" "d < 365 + l"
    by (simp_all add: d_def)
  have "DateFromTime t =
          d - monthStartDay
                (if d < 31 then 0 else if d < 59 + l then 1 else if d < 90 + l then 2
                 else if d < 120 + l then 3 else if d < 151 + l then 4 else if d < 181 + l then 5
                 else if d < 212 + l then 6 else if d < 243 + l then 7 else if d < 273 + l then 8
                 else if d < 304 + l then 9 else if d < 334 + l then 10 else 11) l + 1"
    by (simp add: DateFromTime_def MonthFromTime_def Let_def d_def l_def)
  with d l show ?thesis
    by (auto simp: monthStartDay_def split: if_splits)
qed





section \<open>Properties of the numbers\<close>

lemma roundEven_bounds: "\<lfloor>x\<rfloor> \<le> roundEven x \<and> roundEven x \<le> \<lceil>x\<rceil>"
proof -
  have "x \<noteq> of_int \<lfloor>x\<rfloor> \<Longrightarrow> \<lceil>x\<rceil> = \<lfloor>x\<rfloor> + 1"
    by (simp add: ceiling_altdef)
  moreover have "x = of_int \<lfloor>x\<rfloor> \<Longrightarrow> roundEven x = \<lfloor>x\<rfloor>"
    by (simp add: roundEven_def Let_def)
  moreover have "\<lfloor>x\<rfloor> \<le> \<lceil>x\<rceil>"
    by (rule floor_le_ceiling)
  ultimately show ?thesis
    by (cases "x = of_int \<lfloor>x\<rfloor>") (auto simp: roundEven_def Let_def)
qed

lemma roundEven_error: "\<bar>of_int (roundEven x) - x\<bar> \<le> 1 / 2"
proof -
  define f where "f = \<lfloor>x\<rfloor>"
  have "of_int f \<le> x" "x < of_int f + 1"
    unfolding f_def by linarith+
  then show ?thesis
    unfolding roundEven_def Let_def f_def [symmetric]
    by (simp add: abs_if)
qed

lemma exponent_bounds:
  assumes "0 < x"
  shows "2 powi (exponent x) \<le> x \<and> x < 2 powi (exponent x + 1)"
proof -
  obtain p q where pq: "quotient_of x = (p, q)" by (cases "quotient_of x")
  then have q: "0 < q" and x: "x = of_int p / of_int q"
    by (auto simp: quotient_of_denom_pos quotient_of_div)
  with assms have p: "0 < p"
    by (simp add: zero_less_divide_iff)
  define e where "e = bitlen p - bitlen q"
  have bp: "2 ^ nat (bitlen p - 1) \<le> p" "p < 2 ^ nat (bitlen p)"
    and bq: "2 ^ nat (bitlen q - 1) \<le> q" "q < 2 ^ nat (bitlen q)"
    using bitlen_bounds [OF p] bitlen_bounds [OF q] by simp_all
  have lp: "1 \<le> bitlen p" and lq: "1 \<le> bitlen q"
    using p q bitlen_nonneg [of p] bitlen_nonneg [of q] bitlen_eq_zero_iff [of p] bitlen_eq_zero_iff [of q]
    by linarith+
  have P1: "(2::rat) powi (bitlen p - 1) \<le> of_int p"
  proof -
    have "(of_int (2 ^ nat (bitlen p - 1)) :: rat) \<le> of_int p"
      using bp(1) by (simp only: of_int_le_iff)
    then show ?thesis using lp by (simp add: power_int_nonneg_exp)
  qed
  have P2: "(of_int p :: rat) < 2 powi (bitlen p)"
  proof -
    have "(of_int p :: rat) < of_int (2 ^ nat (bitlen p))"
      using bp(2) by (simp only: of_int_less_iff)
    then show ?thesis using lp by (simp add: power_int_nonneg_exp)
  qed
  have Q1: "(2::rat) powi (bitlen q - 1) \<le> of_int q"
  proof -
    have "(of_int (2 ^ nat (bitlen q - 1)) :: rat) \<le> of_int q"
      using bq(1) by (simp only: of_int_le_iff)
    then show ?thesis using lq by (simp add: power_int_nonneg_exp)
  qed
  have Q2: "(of_int q :: rat) < 2 powi (bitlen q)"
  proof -
    have "(of_int q :: rat) < of_int (2 ^ nat (bitlen q))"
      using bq(2) by (simp only: of_int_less_iff)
    then show ?thesis using lq by (simp add: power_int_nonneg_exp)
  qed
  have qpos: "(0::rat) < of_int q" using q by simp
  have up: "x < 2 powi (e + 1)"
  proof -
    have "of_int p < (2::rat) powi (e + 1) * 2 powi (bitlen q - 1)"
      using P2 by (simp add: e_def power_int_add [symmetric])
    also have "\<dots> \<le> 2 powi (e + 1) * of_int q"
      using Q1 by (simp add: mult_left_mono)
    finally show ?thesis using qpos by (simp add: x pos_divide_less_eq)
  qed
  have lo: "2 powi (e - 1) \<le> x"
  proof -
    have "(2::rat) powi (e - 1) * of_int q \<le> 2 powi (e - 1) * 2 powi (bitlen q)"
      using Q2 by (simp add: mult_left_mono)
    also have "\<dots> = 2 powi (bitlen p - 1)"
      by (simp add: e_def power_int_add [symmetric])
    also have "\<dots> \<le> of_int p" by (rule P1)
    finally show ?thesis using qpos by (simp add: x pos_le_divide_eq)
  qed
  show ?thesis
  proof (cases "2 powi e \<le> x")
    case True
    then have "exponent x = e" by (simp add: exponent_def pq e_def)
    with True up show ?thesis by simp
  next
    case False
    then have "exponent x = e - 1" by (simp add: exponent_def pq e_def)
    with False lo show ?thesis by simp
  qed
qed

lemma exponent_less:
  assumes "0 < x" and "x < 2 powi n"
  shows "exponent x < n"
proof (rule ccontr)
  assume "\<not> exponent x < n"
  then have "(2::rat) powi n \<le> 2 powi (exponent x)"
    by (simp add: power_int_increasing)
  with exponent_bounds [OF assms(1)] assms(2) show False by linarith
qed

lemma exponent_ge:
  assumes "0 < x" and "2 powi n \<le> x"
  shows "n \<le> exponent x"
proof (rule ccontr)
  assume "\<not> n \<le> exponent x"
  then have "(2::rat) powi (exponent x + 1) \<le> 2 powi n"
    by (simp add: power_int_increasing)
  with exponent_bounds [OF assms(1)] assms(2) show False by linarith
qed

lemma fl_pos:
  assumes "0 < x"
  shows "fl x = of_int (roundEven (x / 2 powi (exponent x - 52))) * 2 powi (exponent x - 52)"
  using assms by (simp add: fl_def Let_def)

lemma fl_minus: "fl (- x) = - fl x"
  by (simp add: fl_def Let_def)

lemma fl_error:
  assumes "0 < x"
  shows "\<bar>fl x - x\<bar> \<le> 2 powi (exponent x - 53)"
proof -
  define u :: rat where "u = 2 powi (exponent x - 52)"
  have u: "0 < u" by (simp add: u_def)
  have "fl x - x = (of_int (roundEven (x / u)) - x / u) * u"
    using u by (simp add: fl_pos [OF assms] u_def [symmetric] left_diff_distrib)
  then have "\<bar>fl x - x\<bar> = \<bar>of_int (roundEven (x / u)) - x / u\<bar> * u"
    using u by (simp add: abs_mult)
  also have "\<dots> \<le> 1 / 2 * u"
    using u roundEven_error [of "x / u"] by (simp add: mult_right_mono)
  also have "\<dots> = 2 powi (exponent x - 53)"
    using power_int_add [of "2::rat" "exponent x - 53" 1] by (simp add: u_def)
  finally show ?thesis .
qed

lemma fl_ge_pow:
  assumes "0 < x"
  shows "2 powi (exponent x) \<le> fl x"
proof -
  define u :: rat where "u = 2 powi (exponent x - 52)"
  have u: "0 < u" by (simp add: u_def)
  have e: "2 powi (exponent x) = 2 ^ 52 * u"
    using power_int_add [of "2::rat" "exponent x - 52" 52] by (simp add: u_def)
  have "(2::rat) ^ 52 \<le> x / u"
    using exponent_bounds [OF assms] u by (simp add: e pos_le_divide_eq)
  then have "of_int (2 ^ 52) \<le> x / u" by simp
  then have "2 ^ 52 \<le> \<lfloor>x / u\<rfloor>" by (simp only: le_floor_iff)
  with roundEven_bounds [of "x / u"] have "2 ^ 52 \<le> roundEven (x / u)" by linarith
  then have "(of_int (2 ^ 52) :: rat) \<le> of_int (roundEven (x / u))"
    by (simp only: of_int_le_iff)
  then have "2 ^ 52 * u \<le> of_int (roundEven (x / u)) * u"
    using u by (simp add: mult_right_mono)
  then show ?thesis
    by (simp add: e fl_pos [OF assms] u_def [symmetric])
qed

lemma ulp_inverse:
  assumes "e \<le> 52"
  shows "(2::rat) powi (e - 52) = 1 / 2 ^ nat (52 - e)"
proof -
  have "(2::rat) powi (e - 52) = 2 powi (- int (nat (52 - e)))"
    using assms by simp
  also have "\<dots> = 1 / 2 ^ nat (52 - e)"
    by (simp only: power_int_minus_divide power_int_of_nat)
  finally show ?thesis .
qed

lemma fl_small:
  assumes "0 < x" and "exponent x \<le> 52"
  shows "fl x = of_int (roundEven (x * 2 ^ nat (52 - exponent x))) / 2 ^ nat (52 - exponent x)"
  by (simp add: fl_pos [OF assms(1)] ulp_inverse [OF assms(2)])

lemma fl_ge_int:
  assumes "0 < x" and "of_int n \<le> x" and "n \<le> 2 ^ 53"
  shows "of_int n \<le> fl x"
proof (cases "exponent x \<le> 52")
  case True
  define k where "k = nat (52 - exponent x)"
  have "of_int (n * 2 ^ k) \<le> x * 2 ^ k"
    using assms(2) by (simp add: mult_right_mono)
  then have "n * 2 ^ k \<le> \<lfloor>x * 2 ^ k\<rfloor>" by (simp only: le_floor_iff)
  with roundEven_bounds [of "x * 2 ^ k"] have "n * 2 ^ k \<le> roundEven (x * 2 ^ k)" by linarith
  then have "(of_int (n * 2 ^ k) :: rat) \<le> of_int (roundEven (x * 2 ^ k))"
    by (simp only: of_int_le_iff)
  then show ?thesis
    by (simp add: fl_small [OF assms(1) True] k_def [symmetric] pos_le_divide_eq)
next
  case False
  then have "53 \<le> exponent x" by simp
  then have "(2::rat) powi 53 \<le> 2 powi (exponent x)"
    by (rule power_int_increasing) simp
  moreover have "(of_int n :: rat) \<le> of_int (2 ^ 53)"
    using assms(3) by (simp only: of_int_le_iff)
  ultimately show ?thesis
    using fl_ge_pow [OF assms(1)] by simp
qed

lemma fl_le_int:
  assumes "0 < x" and "x \<le> of_int n" and "x < 2 ^ 53"
  shows "fl x \<le> of_int n"
proof -
  have "x < 2 powi 53" using assms(3) by simp
  then have e: "exponent x \<le> 52"
    using exponent_less [OF assms(1), of 53] by simp
  define k where "k = nat (52 - exponent x)"
  have "x * 2 ^ k \<le> of_int (n * 2 ^ k)"
    using assms(2) by (simp add: mult_right_mono)
  then have "\<lceil>x * 2 ^ k\<rceil> \<le> n * 2 ^ k" by (simp only: ceiling_le_iff)
  with roundEven_bounds [of "x * 2 ^ k"] have "roundEven (x * 2 ^ k) \<le> n * 2 ^ k" by linarith
  then have "(of_int (roundEven (x * 2 ^ k)) :: rat) \<le> of_int (n * 2 ^ k)"
    by (simp only: of_int_le_iff)
  then show ?thesis
    by (simp add: fl_small [OF assms(1) e] k_def [symmetric] pos_divide_le_eq)
qed

lemma fl_nonneg:
  assumes "0 \<le> x"
  shows "0 \<le> fl x"
proof (cases "x = 0")
  case True
  then show ?thesis by (simp add: fl_def)
next
  case False
  with assms have "0 < x" by simp
  from fl_ge_int [OF this, of 0] assms show ?thesis by simp
qed

lemma fl_nonpos:
  assumes "x \<le> 0"
  shows "fl x \<le> 0"
  using fl_nonneg [of "- x"] assms by (simp add: fl_minus)

lemma fl_close:
  assumes "0 < x" and "x < 2 ^ 38"
  shows "\<bar>fl x - x\<bar> \<le> 1 / 65536"
proof -
  have "x < 2 powi 38" using assms(2) by simp
  then have "exponent x - 53 \<le> - 16"
    using exponent_less [OF assms(1), of 38] by simp
  then have "(2::rat) powi (exponent x - 53) \<le> 2 powi (- 16)"
    by (rule power_int_increasing) simp
  also have "\<dots> = 1 / 65536"
    by (simp add: power_int_minus_divide)
  finally show ?thesis
    using fl_error [OF assms(1)] by linarith
qed

lemma minutesOf_pos:
  assumes "0 < x" and "x < 2 ^ 53"
  shows "minutesOf x = x div 60000"
proof -
  define k where "k = x div 60000"
  define r where "r = x mod 60000"
  define q :: rat where "q = of_int x / 60000"
  have x: "x = 60000 * k + r" and r: "0 \<le> r" "r \<le> 59999"
    by (simp_all add: k_def r_def)
  have q: "q = of_int k + of_int r / 60000"
    by (simp add: q_def x)
  have qpos: "0 < q" using assms(1) by (simp add: q_def)
  have "(of_int r :: rat) \<le> of_int 59999" using r(2) by (simp only: of_int_le_iff)
  then have rq: "(of_int r :: rat) / 60000 \<le> 59999 / 60000" by simp
  have "(0::rat) \<le> of_int r" using r(1) by simp
  then have kq: "of_int k \<le> q" by (simp add: q)
  have "(of_int x :: rat) < of_int (2 ^ 53)" using assms(2) by (simp only: of_int_less_iff)
  then have qb: "q < 2 ^ 38" by (simp add: q_def)
  have "k \<le> x" using assms(1) by (simp add: k_def)
  with assms(2) have kb: "k \<le> 2 ^ 53" by simp
  have lo: "of_int k \<le> fl q"
    by (rule fl_ge_int [OF qpos kq kb])
  have "fl q \<le> q + 1 / 65536"
    using fl_close [OF qpos qb] by linarith
  also have "\<dots> < of_int k + 1"
    using rq by (simp add: q)
  finally have hi: "fl q < of_int k + 1" .
  have "\<lfloor>fl q\<rfloor> = k"
    using lo hi by (simp add: floor_unique)
  then show ?thesis
    by (simp add: minutesOf_def q_def k_def)
qed

lemma minutesOf_neg:
  assumes "x < 0" and "- (2 ^ 53) < x"
  shows "minutesOf x = x div 60000"
proof -
  define k where "k = x div 60000"
  define r where "r = x mod 60000"
  define a :: rat where "a = - (of_int x / 60000)"
  have x: "x = 60000 * k + r" and r: "0 \<le> r" "r \<le> 59999"
    by (simp_all add: k_def r_def)
  have a: "a = - of_int k - of_int r / 60000"
    by (simp add: a_def x add_divide_distrib)
  have apos: "0 < a" using assms(1) by (simp add: a_def)
  have "(of_int r :: rat) \<le> of_int 59999" using r(2) by (simp only: of_int_le_iff)
  then have rq: "(of_int r :: rat) / 60000 \<le> 59999 / 60000" by simp
  have "(0::rat) \<le> of_int r" using r(1) by simp
  then have ka: "a \<le> of_int (- k)" by (simp add: a)
  have "(of_int (- x) :: rat) < of_int (2 ^ 53)" using assms(2) by (simp only: of_int_less_iff)
  then have ab: "a < 2 ^ 38" by (simp add: a_def)
  then have ab': "a < 2 ^ 53" by simp
  have hi: "fl a \<le> of_int (- k)"
    by (rule fl_le_int [OF apos ka ab'])
  have "of_int (- k) - 1 < a - 1 / 65536"
    using rq by (simp add: a)
  also have "\<dots> \<le> fl a"
    using fl_close [OF apos ab] by linarith
  finally have lo: "of_int (- k) - 1 < fl a" .
  have "fl (of_int x / 60000) = - fl a"
    by (simp add: a_def fl_minus)
  then have "\<lfloor>fl (of_int x / 60000)\<rfloor> = k"
    using lo hi by (simp add: floor_unique)
  then show ?thesis
    by (simp add: minutesOf_def k_def)
qed

lemma minutesOf_div:
  assumes "\<bar>x\<bar> < 2 ^ 53"
  shows "minutesOf x = x div 60000"
proof -
  consider "x = 0" | "0 < x" | "x < 0" by linarith
  then show ?thesis
  proof cases
    case 1
    then show ?thesis by (simp add: minutesOf_def fl_def)
  next
    case 2
    with assms show ?thesis by (simp add: minutesOf_pos)
  next
    case 3
    with assms show ?thesis by (simp add: minutesOf_neg)
  qed
qed

lemma percentage_eq:
  "percentage c t =
     (if t = 0 then (if c = 0 then NaN else if c > 0 then Finite 100 else NegInfinity)
      else Finite (min 100 (of_int \<lfloor>fl (fl (of_int c / of_int t) * 100) + 1 / 2\<rfloor>)))"
  by (simp add: percentage_def divide_js_def times_js_def Math_round_def Math_min_def)

lemma percentage_special:
  "(percentage c t = NaN \<longleftrightarrow> t = 0 \<and> c = 0)
   \<and> (percentage c t = NegInfinity \<longleftrightarrow> t = 0 \<and> c < 0)
   \<and> percentage c t \<noteq> PosInfinity"
  by (simp add: percentage_eq)

lemma percentage_finite:
  assumes "percentage c t = Finite v"
  shows "v \<le> 100 \<and> (\<exists>n. v = of_int n)"
proof (cases "t = 0")
  case True
  with assms have "v = of_int 100" by (simp add: percentage_eq split: if_splits)
  then show ?thesis by (metis of_int_numeral order_refl)
next
  case False
  define m where "m = \<lfloor>fl (fl (of_int c / of_int t) * 100) + 1 / 2\<rfloor>"
  have v: "v = min 100 (of_int m)"
    using assms False by (simp add: percentage_eq m_def)
  then have "v = of_int (min 100 m)" by (simp add: min_def)
  moreover have "v \<le> 100" using v by simp
  ultimately show ?thesis by blast
qed

lemma percentage_range:
  assumes "0 < t" and "0 \<le> c"
  shows "\<exists>n. percentage c t = Finite (of_int n) \<and> 0 \<le> n \<and> n \<le> 100"
proof -
  define m where "m = \<lfloor>fl (fl (of_int c / of_int t) * 100) + 1 / 2\<rfloor>"
  have "(0::rat) \<le> of_int c / of_int t" using assms by simp
  then have "0 \<le> fl (of_int c / of_int t) * 100" by (simp add: fl_nonneg)
  then have "0 \<le> fl (fl (of_int c / of_int t) * 100)" by (rule fl_nonneg)
  then have m: "0 \<le> m" by (simp add: m_def)
  have "percentage c t = Finite (of_int (min 100 m))"
    using assms(1) by (simp add: percentage_eq m_def [symmetric] min_def)
  with m show ?thesis by (intro exI [of _ "min 100 m"]) simp
qed

lemma percentage_full:
  assumes "0 < t" and "t \<le> c"
  shows "percentage c t = Finite 100"
proof -
  define x :: rat where "x = of_int c / of_int t"
  have "(of_int t :: rat) \<le> of_int c" using assms(2) by (simp only: of_int_le_iff)
  then have x1: "of_int 1 \<le> x" using assms(1) by (simp add: x_def pos_le_divide_eq)
  then have xpos: "0 < x" by simp
  have "of_int 1 \<le> fl x" by (rule fl_ge_int [OF xpos x1]) simp
  then have y: "of_int 100 \<le> fl x * 100" by simp
  then have ypos: "0 < fl x * 100" by simp
  have "of_int 100 \<le> fl (fl x * 100)" by (rule fl_ge_int [OF ypos y]) simp
  then have "of_int 100 \<le> fl (fl x * 100) + 1 / 2" by simp
  then have "100 \<le> \<lfloor>fl (fl x * 100) + 1 / 2\<rfloor>" by (simp only: le_floor_iff)
  then have "(of_int 100 :: rat) \<le> of_int \<lfloor>fl (fl x * 100) + 1 / 2\<rfloor>"
    by (simp only: of_int_le_iff)
  then show ?thesis
    using assms(1) by (simp add: percentage_eq x_def [symmetric] min_def)
qed

lemma percentage_sign:
  assumes "t \<noteq> 0"
  shows "\<exists>n. percentage c t = Finite (of_int n) \<and> n \<le> 100
           \<and> ((0 < t \<and> 0 \<le> c) \<or> (t < 0 \<and> c \<le> 0) \<longrightarrow> 0 \<le> n)
           \<and> ((0 < t \<and> c < 0) \<or> (t < 0 \<and> 0 < c) \<longrightarrow> n \<le> 0)"
proof -
  define x :: rat where "x = of_int c / of_int t"
  define m where "m = \<lfloor>fl (fl x * 100) + 1 / 2\<rfloor>"
  have p: "percentage c t = Finite (of_int (min 100 m))"
    using assms by (simp add: percentage_eq m_def x_def min_def)
  have a: "0 \<le> m" if "(0 < t \<and> 0 \<le> c) \<or> (t < 0 \<and> c \<le> 0)"
  proof -
    from that have "0 \<le> x" by (auto simp: x_def zero_le_divide_iff)
    then have "0 \<le> fl x * 100" by (simp add: fl_nonneg)
    then have "0 \<le> fl (fl x * 100)" by (rule fl_nonneg)
    then show ?thesis by (simp add: m_def)
  qed
  have b: "m \<le> 0" if "(0 < t \<and> c < 0) \<or> (t < 0 \<and> 0 < c)"
  proof -
    from that have "x \<le> 0" by (auto simp: x_def divide_le_0_iff)
    then have "fl x * 100 \<le> 0" using fl_nonpos [of x] by simp
    then have "fl (fl x * 100) \<le> 0" by (rule fl_nonpos)
    then have "fl (fl x * 100) + 1 / 2 < of_int 1" by simp
    then have "m < 1" unfolding m_def by (simp only: floor_less_iff)
    then show ?thesis by simp
  qed
  show ?thesis
    using p a b by (intro exI [of _ "min 100 m"]) auto
qed

section \<open>Properties of the streak\<close>

text \<open>
  The loop in terms of the steps of the walk: at the instant \<open>k\<close> steps back, with a
  streak of \<open>s\<close>.
\<close>

lemma streakLoop_unfold:
  "streakLoop z acts ids st today (walk z today k) s =
     (if qualifies z today acts ids st k
      then (if far z today (Suc k) then Some (s + 1)
            else streakLoop z acts ids st today (walk z today (Suc k)) (s + 1))
      else if s = 0 \<and> qualifies z today acts ids st (Suc k)
      then streakLoop z acts ids st today (walk z today (Suc (Suc k))) (s + 1)
      else Some s)"
  by (subst streakLoop.simps) (simp only: qualifies_def far_def walk.simps)

lemma runUntil_le: "runUntil q stop k n \<le> n"
  by (induction n arbitrary: k) simp_all


lemma runUntil_continues: "1 \<le> j \<Longrightarrow> j < runUntil q stop k n \<Longrightarrow> \<not> stop (k + j)"
proof (induction n arbitrary: k j)
  case 0
  then show ?case by simp
next
  case (Suc n)
  from Suc.prems have r: "j - 1 < runUntil q stop (Suc k) n" and s: "\<not> stop (Suc k)"
    by (simp_all split: if_splits)
  show ?case
  proof (cases "j = 1")
    case True
    with s show ?thesis by simp
  next
    case False
    with Suc.prems have "1 \<le> j - 1" by simp
    from Suc.IH [OF this r] Suc.prems show ?thesis by simp
  qed
qed

lemma runUntil_stop:
  assumes "stop (k + n)" and "0 < n"
  shows "\<not> q (k + runUntil q stop k n)
         \<or> (0 < runUntil q stop k n \<and> stop (k + runUntil q stop k n))"
  using assms
proof (induction n arbitrary: k)
  case 0
  then show ?case by simp
next
  case (Suc n)
  show ?case
  proof (cases "q k \<and> \<not> stop (Suc k)")
    case True
    with Suc.prems have "0 < n" by (cases n) simp_all
    moreover from Suc.prems have "stop (Suc k + n)" by simp
    ultimately have "\<not> q (Suc k + runUntil q stop (Suc k) n)
         \<or> (0 < runUntil q stop (Suc k) n \<and> stop (Suc k + runUntil q stop (Suc k) n))"
      using Suc.IH by blast
    with True show ?thesis by simp
  next
    case False
    then show ?thesis by auto
  qed
qed

lemma runUntil_all:
  assumes "\<forall>j < n. q (k + j)" and "\<forall>j. 1 \<le> j \<and> j < n \<longrightarrow> \<not> stop (k + j)"
  shows "runUntil q stop k n = n"
  using assms
proof (induction n arbitrary: k)
  case 0
  show ?case by simp
next
  case (Suc n)
  from Suc.prems(1) [rule_format, of 0] have q: "q k" by simp
  show ?case
  proof (cases "n = 0")
    case True
    with q show ?thesis by simp
  next
    case False
    with Suc.prems(2) [rule_format, of 1] have s: "\<not> stop (Suc k)" by simp
    have "\<forall>j < n. q (Suc k + j)"
    proof (intro allI impI)
      fix j assume "j < n"
      with Suc.prems(1) [rule_format, of "Suc j"] show "q (Suc k + j)" by simp
    qed
    moreover have "\<forall>j. 1 \<le> j \<and> j < n \<longrightarrow> \<not> stop (Suc k + j)"
    proof (intro allI impI)
      fix j assume "1 \<le> j \<and> j < n"
      with Suc.prems(2) [rule_format, of "Suc j"] show "\<not> stop (Suc k + j)" by simp
    qed
    ultimately have "runUntil q stop (Suc k) n = n" by (rule Suc.IH)
    with q s show ?thesis by simp
  qed
qed

text \<open>
  The loop, once some step is beyond the safety limit: from step \<open>k\<close> with a streak
  of \<open>s\<close> it returns \<open>s\<close> plus the run from \<open>k\<close>.
\<close>

lemma streakLoop_runUntil:
  assumes "far z today (k + n)" and "0 < n" and "0 \<le> s"
    and "s \<noteq> 0 \<or> qualifies z today acts ids st k"
  shows "streakLoop z acts ids st today (walk z today k) s =
           Some (s + int (runUntil (qualifies z today acts ids st) (far z today) k n))"
  using assms
proof (induction n arbitrary: k s)
  case 0
  then show ?case by simp
next
  case (Suc n)
  let ?q = "qualifies z today acts ids st"
  show ?case
  proof (cases "?q k")
    case False
    with Suc.prems show ?thesis
      by (subst streakLoop_unfold) simp
  next
    case q: True
    show ?thesis
    proof (cases "far z today (Suc k)")
      case True
      with q show ?thesis
        by (subst streakLoop_unfold) simp
    next
      case False
      with Suc.prems(1) have "0 < n" by (cases n) simp_all
      moreover from Suc.prems(1) have "far z today (Suc k + n)" by simp
      moreover from Suc.prems(3) have "0 \<le> s + 1" and "s + 1 \<noteq> 0 \<or> ?q (Suc k)" by simp_all
      ultimately have "streakLoop z acts ids st today (walk z today (Suc k)) (s + 1) =
           Some (s + 1 + int (runUntil ?q (far z today) (Suc k) n))"
        using Suc.IH by blast
      with q False show ?thesis
        by (subst streakLoop_unfold) simp
    qed
  qed
qed

lemma calculateStreak_runUntil:
  assumes "far z today n" and "2 < n"
  shows "calculateStreak z today acts ids st =
           Some (int (if qualifies z today acts ids st 0
                      then runUntil (qualifies z today acts ids st) (far z today) 0 n
                      else if qualifies z today acts ids st 1
                      then 1 + runUntil (qualifies z today acts ids st) (far z today) 2 (n - 2)
                      else 0))"
proof -
  let ?q = "qualifies z today acts ids st"
  have w: "walk z today 0 = today" by simp
  show ?thesis
  proof (cases "?q 0")
    case True
    from assms have "far z today (0 + n)" and "0 < n" by simp_all
    from streakLoop_runUntil [OF this, of 0 acts ids st] True show ?thesis
      by (simp add: calculateStreak_def)
  next
    case q0: False
    show ?thesis
    proof (cases "?q 1")
      case True
      from assms(2) have "2 + (n - 2) = n" by simp
      with assms have "far z today (2 + (n - 2))" and "0 < n - 2" by simp_all
      from streakLoop_runUntil [OF this, of 1 acts ids st]
      have "streakLoop z acts ids st today (walk z today (Suc (Suc 0))) (0 + 1) =
              Some (1 + int (runUntil ?q (far z today) 2 (n - 2)))"
        by (simp add: numeral_2_eq_2)
      with q0 True show ?thesis
        unfolding calculateStreak_def
        by (subst w [symmetric], subst streakLoop_unfold) simp
    next
      case False
      with q0 show ?thesis
        unfolding calculateStreak_def
        by (subst w [symmetric], subst streakLoop_unfold) simp
    qed
  qed
qed

text \<open>
  In a zone whose offsets differ by less than a day, each step of the walk goes
  back by more than nothing and by less than two days: the walk gets beyond the
  safety limit, not before step 183, and stays beyond it.
\<close>

lemma prev_day_bound:
  assumes "withinADay z"
  shows "t - 2 * msPerDay < setDate z t (getDate z t - 1)"
  using withinADay_offsets [OF assms, of "LocalTime z t - msPerDay" False t True]
  by (simp add: setDate_prev UTC_def LocalTime_def)

lemma walk_bounds:
  assumes "withinADay z"
  shows "today - 2 * int k * msPerDay \<le> walk z today k \<and> walk z today k \<le> today - int k"
proof (induction k)
  case 0
  show ?case by simp
next
  case (Suc k)
  from prev_day_earlier [OF assms, of "walk z today k"] prev_day_bound [OF assms, of "walk z today k"]
  have "walk z today k - 2 * msPerDay < walk z today (Suc k)"
    and "walk z today (Suc k) < walk z today k" by simp_all
  with Suc.IH show ?case by (simp add: algebra_simps)
qed

lemma walk_mono:
  assumes "withinADay z" and "k \<le> k'"
  shows "walk z today k' \<le> walk z today k"
  using assms(2)
proof (induction k' rule: dec_induct)
  case base
  show ?case by simp
next
  case (step n)
  from prev_day_earlier [OF assms(1), of "walk z today n"] step.IH show ?case by simp
qed

lemma far_mono:
  assumes "withinADay z" and "far z today k" and "k \<le> k'"
  shows "far z today k'"
proof -
  from walk_mono [OF assms(1,3)] have "today - walk z today k \<le> today - walk z today k'"
    by simp
  then have "(today - walk z today k) div (1000 * 60 * 60 * 24)
               \<le> (today - walk z today k') div (1000 * 60 * 60 * 24)"
    by (rule zdiv_mono1) simp
  with assms(2) show ?thesis by (simp add: far_def)
qed

lemma far_late:
  assumes "withinADay z" and "far z today k"
  shows "183 \<le> k"
proof -
  from walk_bounds [OF assms(1), of today k] have "today - walk z today k \<le> (2 * int k) * 86400000"
    by (simp add: msPerDay_def)
  then have "(today - walk z today k) div 86400000 \<le> ((2 * int k) * 86400000) div 86400000"
    by (rule zdiv_mono1) simp
  with assms(2) have "365 < 2 * int k" by (simp add: far_def)
  then show ?thesis by simp
qed

lemma far_exists:
  assumes "withinADay z"
  shows "far z today (nat (366 * msPerDay))"
proof -
  from walk_bounds [OF assms, of today "nat (366 * msPerDay)"]
  have "366 * 86400000 \<le> today - walk z today (nat (366 * msPerDay))"
    by (simp add: msPerDay_def)
  then have "(366 * 86400000) div 86400000 \<le> (today - walk z today (nat (366 * msPerDay))) div 86400000"
    by (rule zdiv_mono1) simp
  then show ?thesis by (simp add: far_def)
qed

text \<open>In a zone of constant offset the steps are 24 hours, and the limit is at step 366.\<close>

lemma walk_fixed: "walk (fixedZone off) today k = today - int k * msPerDay"
  by (induction k) (simp_all add: setDate_prev LocalTime_fixed UTC_fixed algebra_simps)

lemma far_fixed: "far (fixedZone off) today k \<longleftrightarrow> 366 \<le> k"
proof -
  have "(int k * 86400000) div 86400000 = int k" by simp
  then show ?thesis
    unfolding far_def walk_fixed by (simp add: msPerDay_def) linarith
qed

text \<open>
  The walk in New York from 2024-03-11 at noon (16:00 UTC): it keeps the local
  time of day, so that the steps over a change of offset are 23 or 25 hours. Step
  366 is 366 days less one hour before the start, and step 367 is the first beyond
  the safety limit.
\<close>

lemma newYork_within: "withinADay newYork"
  by (simp add: withinADay_def offsets_def newYork_def msPerDay_def)


lemma newYork_roundtrip:
  assumes "l < 1678586400000 \<or> 1678590000000 \<le> l"
    and "l < 1710036000000 \<or> 1710039600000 \<le> l"
  shows "LocalTime newYork (UTC newYork l) = l"
  using assms by (auto simp: LocalTime_def UTC_def LocalTZA_def newYork_def)

lemma newYork_walk_local:
  "k \<le> 367 \<Longrightarrow>
     LocalTime newYork (walk newYork 1710172800000 k) = 1710158400000 - int k * msPerDay"
proof (induction k)
  case 0
  show ?case by (simp add: LocalTime_def LocalTZA_def newYork_def)
next
  case (Suc k)
  define l where "l = 1710158400000 - int (Suc k) * msPerDay"
  from Suc have ih: "LocalTime newYork (walk newYork 1710172800000 k) =
                       1710158400000 - int k * msPerDay"
    by simp
  have "1710158400000 - int k * msPerDay - msPerDay = l"
    by (simp add: l_def algebra_simps)
  then have w: "walk newYork 1710172800000 (Suc k) = UTC newYork l"
    by (simp add: setDate_prev ih)
  have "k \<le> 364 \<or> 365 \<le> k" by linarith
  then have a: "l < 1678586400000 \<or> 1678590000000 \<le> l"
    by (auto simp: l_def msPerDay_def)
  have "k = 0 \<or> 1 \<le> k" by linarith
  then have b: "l < 1710036000000 \<or> 1710039600000 \<le> l"
    by (auto simp: l_def msPerDay_def)
  show ?case
    unfolding w using newYork_roundtrip [OF a b] by (simp add: l_def)
qed

lemma newYork_walk:
  "walk newYork 1710172800000 366 = 1710172800000 - 366 * msPerDay + 3600000"
  "walk newYork 1710172800000 367 = 1710172800000 - 367 * msPerDay + 3600000"
proof -
  have s: "Suc 365 = 366" "Suc 366 = 367" by simp_all
  have "LocalTime newYork (walk newYork 1710172800000 365) = 1710158400000 - 365 * msPerDay"
    using newYork_walk_local [of 365] by simp
  then have "walk newYork 1710172800000 (Suc 365) =
               UTC newYork (1710158400000 - 365 * msPerDay - msPerDay)"
    by (simp only: walk.simps setDate_prev)
  then show "walk newYork 1710172800000 366 = 1710172800000 - 366 * msPerDay + 3600000"
    unfolding s by (simp add: UTC_def LocalTZA_def newYork_def msPerDay_def)
  have "LocalTime newYork (walk newYork 1710172800000 366) = 1710158400000 - 366 * msPerDay"
    using newYork_walk_local [of 366] by simp
  then have "walk newYork 1710172800000 (Suc 366) =
               UTC newYork (1710158400000 - 366 * msPerDay - msPerDay)"
    by (simp only: walk.simps setDate_prev)
  then show "walk newYork 1710172800000 367 = 1710172800000 - 367 * msPerDay + 3600000"
    unfolding s by (simp add: UTC_def LocalTZA_def newYork_def msPerDay_def)
qed

lemma newYork_far: "far newYork 1710172800000 k \<longleftrightarrow> 367 \<le> k"
proof
  assume f: "far newYork 1710172800000 k"
  show "367 \<le> k"
  proof (rule ccontr)
    assume "\<not> 367 \<le> k"
    then have "k \<le> 366" by simp
    from far_mono [OF newYork_within f this] show False
      by (simp add: far_def newYork_walk msPerDay_def)
  qed
next
  assume k: "367 \<le> k"
  have "far newYork 1710172800000 367"
    by (simp add: far_def newYork_walk msPerDay_def)
  from far_mono [OF newYork_within this k] show "far newYork 1710172800000 k" .
qed

lemma everyDay_qualifies: "qualifies z today everyDay [] ''check'' k"
  by (simp add: qualifies_def dayHasActivity_def idsToCheck_def everyDay_def)

text \<open>
  C5. In every zone whose offsets differ by less than a day from one another, for
  every clock, activities, id list and streak type, the loop of \<open>calculateStreak\<close>
  ends and returns a number (the result is \<open>Some\<close>), without an error. Some step of
  the walk is more than 365 days before today, by the test of the loop, and the
  result is at most the number of any such step: the walk stops there. When every
  day qualifies, the result is the number of the first such step. In a zone of
  constant offset this step is step 366, the result is 366 at most, and it is 366
  when each of the days 0 to 365 qualifies.
\<close>

theorem calculateStreak_terminates:
  assumes "withinADay z"
  shows "\<exists>n. calculateStreak z today acts ids st = Some n \<and> 0 \<le> n
       \<and> far z today (nat (366 * msPerDay))
       \<and> (\<forall>N. far z today N \<longrightarrow> n \<le> int N)
       \<and> ((\<forall>k. qualifies z today acts ids st k) \<longrightarrow> far z today (nat n))
       \<and> (\<forall>off. z = fixedZone off \<longrightarrow>
             n \<le> 366 \<and> ((\<forall>k \<le> 365. qualifies z today acts ids st k) \<longrightarrow> n = 366))"
proof -
  let ?q = "qualifies z today acts ids st"
  let ?far = "far z today"
  define N0 where "N0 = nat (366 * msPerDay)"
  define m where "m = (if ?q 0 then runUntil ?q ?far 0 N0
                       else if ?q 1 then 1 + runUntil ?q ?far 2 (N0 - 2) else 0)"
  have f0: "?far N0"
    unfolding N0_def by (rule far_exists [OF assms])
  have big: "2 < N0"
    by (simp add: N0_def msPerDay_def)
  have res: "calculateStreak z today acts ids st = Some (int m)"
    unfolding m_def by (rule calculateStreak_runUntil [OF f0 big])
  have le: "m \<le> N" if f: "?far N" for N
  proof (rule ccontr)
    assume "\<not> m \<le> N"
    then have less: "N < m" by simp
    from far_late [OF assms f] have n: "183 \<le> N" .
    show False
    proof (cases "?q 0")
      case True
      with less have "N < runUntil ?q ?far 0 N0" by (simp add: m_def)
      moreover from n have "1 \<le> N" by simp
      ultimately have "\<not> ?far (0 + N)" by (intro runUntil_continues)
      with f show False by simp
    next
      case False
      with less n have "N - 2 < runUntil ?q ?far 2 (N0 - 2)"
        by (simp add: m_def split: if_splits)
      moreover from n have "1 \<le> N - 2" by simp
      ultimately have "\<not> ?far (2 + (N - 2))" by (intro runUntil_continues)
      moreover from n have "2 + (N - 2) = N" by simp
      ultimately show False using f by simp
    qed
  qed
  have every: "?far m" if all: "\<forall>k. ?q k"
  proof -
    from all have m: "m = runUntil ?q ?far 0 N0" by (simp add: m_def)
    from f0 big have "?far (0 + N0)" and "0 < N0" by simp_all
    from runUntil_stop [of ?far 0 N0 ?q, OF this] all show ?thesis
      by (simp add: m)
  qed
  have fixed: "m \<le> 366 \<and> ((\<forall>k \<le> 365. ?q k) \<longrightarrow> m = 366)" if z: "z = fixedZone off" for off
  proof -
    have ff: "?far k \<longleftrightarrow> 366 \<le> k" for k
      unfolding z by (rule far_fixed)
    then have "?far 366" by simp
    then have a: "m \<le> 366" by (rule le)
    have "m = 366" if all: "\<forall>k \<le> 365. ?q k"
    proof -
      have "\<forall>j < 366. ?q (0 + j)" using all by simp
      moreover have "\<forall>j. 1 \<le> j \<and> j < 366 \<longrightarrow> \<not> ?far (0 + j)" by (simp add: ff)
      ultimately have "runUntil ?q ?far 0 366 = 366" by (rule runUntil_all)
      moreover from all have "?q 0" by simp
      moreover have "calculateStreak z today acts ids st =
           Some (int (if ?q 0 then runUntil ?q ?far 0 366
                      else if ?q 1 then 1 + runUntil ?q ?far 2 (366 - 2) else 0))"
        by (rule calculateStreak_runUntil) (simp_all add: ff)
      ultimately show ?thesis using res by simp
    qed
    with a show ?thesis by simp
  qed
  show ?thesis
  proof (intro exI [of _ "int m"] conjI allI impI)
    show "calculateStreak z today acts ids st = Some (int m)" by (rule res)
    show "0 \<le> int m" by simp
    show "?far (nat (366 * msPerDay))" using f0 by (simp add: N0_def)
    show "int m \<le> int N" if "?far N" for N using le [OF that] by simp
    show "?far (nat (int m))" if "\<forall>k. ?q k" using every [OF that] by simp
    show "int m \<le> 366" if "z = fixedZone off" for off using fixed [OF that] by simp
    show "int m = 366" if "z = fixedZone off" and "\<forall>k \<le> 365. ?q k" for off
      using fixed [OF that(1)] that(2) by simp
  qed
qed

theorem calculateStreak_terminates_witness:
  "withinADay newYork
   \<and> calculateStreak newYork 1710172800000 everyDay [] ''check'' = Some 367
   \<and> calculateStreak (fixedZone 0) 0 everyDay [] ''check'' = Some 366"
proof -
  from calculateStreak_terminates [OF newYork_within, of 1710172800000 everyDay "[]" "''check''"]
  obtain n where r: "calculateStreak newYork 1710172800000 everyDay [] ''check'' = Some n"
    and p: "0 \<le> n"
    and le: "\<forall>N. far newYork 1710172800000 N \<longrightarrow> n \<le> int N"
    and f: "(\<forall>k. qualifies newYork 1710172800000 everyDay [] ''check'' k) \<longrightarrow>
              far newYork 1710172800000 (nat n)"
    by blast
  from le [rule_format, of 367] have "n \<le> 367" by (simp add: newYork_far)
  moreover from f have "367 \<le> nat n" by (simp add: everyDay_qualifies newYork_far)
  ultimately have "n = 367" by simp
  with r have a: "calculateStreak newYork 1710172800000 everyDay [] ''check'' = Some 367"
    by simp
  from calculateStreak_terminates [OF withinADay_fixedZone, of 0 0 everyDay "[]" "''check''"]
  have "calculateStreak (fixedZone 0) 0 everyDay [] ''check'' = Some 366"
    by (auto simp: everyDay_qualifies)
  with a newYork_within show ?thesis by simp
qed











section \<open>Properties of the check aggregator\<close>






lemma countLoop_eq:
  assumes "withinADay z"
  shows "countLoop z cs e c count = Some (count + checkedDays z cs c e)"
proof -
  have "withinADay z \<Longrightarrow> e - c < n \<Longrightarrow> countLoop z cs e c count =
          Some (count + int (length (filter (\<lambda>t. cs (getISODate t) = Some True)
                                       (visited z e n c))))" for n
  proof (induction z e n c arbitrary: count rule: visited.induct)
    case (1 tz endDate n cur)
    from "1.prems" have h: "withinADay tz" by simp
    show ?case
    proof (cases "cur \<le> endDate")
      case True
      let ?next = "setDate tz cur (getDate tz cur + 1)"
      from True "1.prems" have n: "0 < n" by simp
      from next_day_later [OF h, of cur] "1.prems"
      have "endDate - ?next < n - 1" by simp
      with n True h have "countLoop tz cs endDate ?next count' =
          Some (count' + int (length (filter (\<lambda>t. cs (getISODate t) = Some True)
                                        (visited tz endDate (n - 1) ?next))))" for count'
        by (intro "1.IH") simp_all
      with n True show ?thesis
        by (subst countLoop.simps, subst visited.simps) simp
    next
      case False
      then show ?thesis
        by (subst countLoop.simps, subst visited.simps) simp
    qed
  qed
  with assms show ?thesis
    by (simp add: checkedDays_def visitedDays_def)
qed

lemma checkedDays_nonneg: "0 \<le> checkedDays z cs s e"
  by (simp add: checkedDays_def)

lemma countIds_eq:
  assumes "withinADay z"
  shows "countIds z activities s e ids acc =
     Some (acc + sum_list (map (\<lambda>ident. case map_of activities ident of
                                            None \<Rightarrow> 0
                                          | Some a \<Rightarrow>
                                              if activity_type a = ''check''
                                              then (case activity_checks a of
                                                      None \<Rightarrow> 0
                                                    | Some cs \<Rightarrow> checkedDays z cs s e)
                                              else 0) ids))"
proof (induction ids arbitrary: acc)
  case Nil
  show ?case by simp
next
  case (Cons ident ids)
  have "checksOfId z activities s e ident acc =
          Some (acc + (case map_of activities ident of
                         None \<Rightarrow> 0
                       | Some a \<Rightarrow>
                           if activity_type a = ''check''
                           then (case activity_checks a of
                                   None \<Rightarrow> 0
                                 | Some cs \<Rightarrow> checkedDays z cs s e)
                           else 0))"
    by (simp add: checksOfId_def countLoop_eq [OF assms] split: option.split)
  then show ?case
    using Cons.IH by (simp add: add.assoc)
qed

lemma countIds_nonneg:
  assumes "withinADay z" and "0 \<le> acc"
  shows "\<exists>n. countIds z activities s e ids acc = Some n \<and> 0 \<le> n"
proof -
  have "0 \<le> sum_list (map (\<lambda>ident. case map_of activities ident of
                                            None \<Rightarrow> 0
                                          | Some a \<Rightarrow>
                                              if activity_type a = ''check''
                                              then (case activity_checks a of
                                                      None \<Rightarrow> 0
                                                    | Some cs \<Rightarrow> checkedDays z cs s e)
                                              else 0) ids)"
    by (rule sum_list_nonneg) (auto simp: checkedDays_nonneg split: option.split)
  with assms(2) show ?thesis
    by (simp add: countIds_eq [OF assms(1)])
qed











section \<open>Properties of the goal evaluator\<close>

lemma evaluateTimeGoal_eq:
  "evaluateTimeGoal tz now g activities =
     \<lparr> achieved = (targetMinutes (goal_config g) \<le> minutesOf (trackedMs tz now g activities)),
       current = minutesOf (trackedMs tz now g activities),
       target = targetMinutes (goal_config g),
       progressPercentage =
         percentage (minutesOf (trackedMs tz now g activities)) (targetMinutes (goal_config g)),
       unit = ''minutes'' \<rparr>"
  by (simp add: evaluateTimeGoal_def trackedMs_def Let_def split_beta)

lemma day_range: "getPeriodRange (fixedZone 0) ''day'' 1704888000000 = (1704844800000, 1704931199999)"
  by code_simp

lemma trackedMs_oneEntry:
  "trackedMs (fixedZone 0) 1704888000000 (dayGoal t) (oneEntry s e) =
     calculateTimeInRange (Some [\<lparr> entry_start = s, entry_end = Some e \<rparr>]) 1704844800000 1704931199999"
  by (simp add: trackedMs_def dayGoal_def day_range activityIdsOf_def oneEntry_def
      calculateTimeInRange_goal_def idsToCheck_def timeOfId_def calculateTimeInRange_def)

lemma dayGoal_target: "targetMinutes (goal_config (dayGoal t)) = t"
  by (simp add: dayGoal_def)

lemma trackedMs_examples:
  "trackedMs (fixedZone 0) 1704888000000 (dayGoal 60) (oneEntry 1704844800000 1704848400000) = 3600000"
  "trackedMs (fixedZone 0) 1704888000000 (dayGoal 60) (oneEntry 1704844800000 1704848399999) = 3599999"
  "trackedMs (fixedZone 0) 1704888000000 (dayGoal 100) (oneEntry 1704844800000 1704853800000) = 9000000"
  "trackedMs (fixedZone 0) 1704888000000 (dayGoal (- 10)) (oneEntry 1704844800000 1704845100000) = 300000"
  "trackedMs (fixedZone 0) 1704888000000 (dayGoal 60) (oneEntry 1704845400000 1704844800000) = - 600000"
  by (simp_all add: trackedMs_oneEntry calculateTimeInRange_def overlapStep_def)

lemma minutesOf_examples:
  "minutesOf 3600000 = 60" "minutesOf 3599999 = 59" "minutesOf 9000000 = 150"
  "minutesOf 300000 = 5" "minutesOf (- 600000) = - 10" "minutesOf 0 = 0"
  by (simp_all add: minutesOf_div)

lemma percentage_examples:
  "percentage 60 60 = Finite 100" "percentage 59 60 = Finite 98"
  "percentage 150 100 = Finite 100" "percentage 29 200 = Finite 14"
  "percentage 5 (- 10) = Finite (- 50)" "percentage (- 10) 60 = Finite (- 17)"
  "percentage 0 0 = NaN" "percentage (- 10) (- 10) = Finite 100" "percentage (- 1) 1000 = Finite 0"
  by code_simp+

text \<open>
  C10. The \<open>current\<close> of a time goal is the floor of the total of overlap
  milliseconds divided by 60000, and \<open>achieved\<close> and the percentage are computed
  from this whole number of minutes. The division is the division of doubles; for
  every total below 2 ^ 53 in magnitude (the integers that a double holds exactly)
  its floor is the floor of the exact quotient, and a total of
  \<open>targetMinutes * 60000 - 1\<close> milliseconds is not achieved.
\<close>

theorem evaluateTimeGoal_floor_minutes:
  "current (evaluateTimeGoal tz now g activities) =
     \<lfloor>fl (of_int (trackedMs tz now g activities) / 60000)\<rfloor>
   \<and> (\<bar>trackedMs tz now g activities\<bar> < 2 ^ 53 \<longrightarrow>
        current (evaluateTimeGoal tz now g activities) = trackedMs tz now g activities div 60000)
   \<and> achieved (evaluateTimeGoal tz now g activities) =
       (targetMinutes (goal_config g) \<le> current (evaluateTimeGoal tz now g activities))
   \<and> progressPercentage (evaluateTimeGoal tz now g activities) =
       percentage (current (evaluateTimeGoal tz now g activities)) (targetMinutes (goal_config g))
   \<and> (\<bar>trackedMs tz now g activities\<bar> < 2 ^ 53
        \<and> trackedMs tz now g activities = targetMinutes (goal_config g) * 60000 - 1 \<longrightarrow>
        \<not> achieved (evaluateTimeGoal tz now g activities))"
proof -
  define t where "t = targetMinutes (goal_config g)"
  define x where "x = trackedMs tz now g activities"
  have c: "current (evaluateTimeGoal tz now g activities) = minutesOf x"
    and a: "achieved (evaluateTimeGoal tz now g activities) = (t \<le> minutesOf x)"
    and p: "progressPercentage (evaluateTimeGoal tz now g activities) = percentage (minutesOf x) t"
    unfolding evaluateTimeGoal_eq t_def x_def by simp_all
  have m: "\<bar>x\<bar> < 2 ^ 53 \<longrightarrow> minutesOf x = x div 60000"
    using minutesOf_div [of x] by blast
  have "t * 60000 - 1 = 60000 * (t - 1) + 59999" by simp
  then have "(t * 60000 - 1) div 60000 = t - 1"
    by (rule int_div_pos_eq) simp_all
  then have n: "\<bar>x\<bar> < 2 ^ 53 \<and> x = t * 60000 - 1 \<longrightarrow> \<not> t \<le> minutesOf x"
    using m by auto
  have f: "minutesOf x = \<lfloor>fl (of_int x / 60000)\<rfloor>"
    by (rule minutesOf_def)
  show ?thesis
    unfolding c a p t_def [symmetric] x_def [symmetric] using m n f by blast
qed

theorem evaluateTimeGoal_floor_minutes_witness:
  "trackedMs (fixedZone 0) 1704888000000 (dayGoal 60) (oneEntry 1704844800000 1704848399999) = 60 * 60000 - 1
   \<and> current (evaluateTimeGoal (fixedZone 0) 1704888000000 (dayGoal 60)
                (oneEntry 1704844800000 1704848399999)) = 59
   \<and> \<not> achieved (evaluateTimeGoal (fixedZone 0) 1704888000000 (dayGoal 60)
                    (oneEntry 1704844800000 1704848399999))"
proof -
  let ?x = "trackedMs (fixedZone 0) 1704888000000 (dayGoal 60) (oneEntry 1704844800000 1704848399999)"
  let ?r = "evaluateTimeGoal (fixedZone 0) 1704888000000 (dayGoal 60) (oneEntry 1704844800000 1704848399999)"
  have x: "?x = 3599999"
    by (simp add: trackedMs_examples)
  from evaluateTimeGoal_floor_minutes
    [of "fixedZone 0" 1704888000000 "dayGoal 60" "oneEntry 1704844800000 1704848399999"]
  have "\<bar>?x\<bar> < 2 ^ 53 \<longrightarrow> current ?r = ?x div 60000"
    and "\<bar>?x\<bar> < 2 ^ 53 \<and> ?x = targetMinutes (goal_config (dayGoal 60)) * 60000 - 1 \<longrightarrow>
           \<not> achieved ?r"
    by blast+
  then show ?thesis
    unfolding x dayGoal_target by simp
qed

lemma trackedMs_nothing: "trackedMs z now (dayGoal t) [] = 0"
  by (simp add: trackedMs_def dayGoal_def activityIdsOf_def calculateTimeInRange_goal_def
      idsToCheck_def timeOfId_def)

text \<open>
  C1, as the claim states it, fails: the percentage is not clamped at 0, and with
  a target of 0 it is not always a number. A target of -10 minutes with 5 minutes
  tracked gives -50, an entry that ends 10 minutes before it starts gives -17
  against a target of 60, and a target of 0 with nothing tracked gives \<open>NaN\<close>.
\<close>

theorem evaluateTimeGoal_negative_counterexample:
  "evaluateTimeGoal (fixedZone 0) 1704888000000 (dayGoal (- 10))
     (oneEntry 1704844800000 1704845100000) =
     \<lparr> achieved = True, current = 5, target = - 10,
       progressPercentage = Finite (- 50), unit = ''minutes'' \<rparr>
   \<and> evaluateTimeGoal (fixedZone 0) 1704888000000 (dayGoal 60)
       (oneEntry 1704845400000 1704844800000) =
     \<lparr> achieved = False, current = - 10, target = 60,
       progressPercentage = Finite (- 17), unit = ''minutes'' \<rparr>
   \<and> evaluateTimeGoal (fixedZone 0) 1704888000000 (dayGoal 0) [] =
     \<lparr> achieved = True, current = 0, target = 0,
       progressPercentage = NaN, unit = ''minutes'' \<rparr>"
  by (simp add: evaluateTimeGoal_eq trackedMs_examples trackedMs_nothing minutesOf_examples
      percentage_examples dayGoal_target)

text \<open>
  C1, amended. For every evaluation of a time goal, \<open>achieved\<close> is true exactly when
  \<open>current \<ge> target\<close>, and the percentage is
  \<open>Math.min(100, Math.round((current / target) * 100))\<close> in the arithmetic of
  doubles. With a target other than 0 it is a whole number, never more than 100:
  it is 0 or more when \<open>current / target\<close> is 0 or more (a positive target and a
  current of 0 or more, or a negative target and a current of 0 or less), and it
  is 0 or less when \<open>current / target\<close> is negative. With a target of 0 it is
  \<open>NaN\<close> when current is 0, 100 when current is positive and \<open>-Infinity\<close> when
  current is negative. It is never \<open>Infinity\<close>, and it is 100 when the goal with a
  positive target is achieved. With a target of 60, 60 minutes give \<open>achieved\<close> and
  100, and 59 minutes give not \<open>achieved\<close> and 98; 150 minutes against 100 give
  \<open>achieved\<close> and 100. The quotient and the product are rounded to doubles: 29
  minutes against 200 give 14.
\<close>

theorem evaluateTimeGoal_percentage:
  assumes "r = evaluateTimeGoal z now g activities"
  shows "achieved r = (target r \<le> current r)
    \<and> target r = targetMinutes (goal_config g)
    \<and> progressPercentage r =
        Math_min 100 (Math_round (times_js (divide_js (current r) (target r)) 100))
    \<and> (target r \<noteq> 0 \<longrightarrow>
         (\<exists>n. progressPercentage r = Finite (of_int n) \<and> n \<le> 100
              \<and> ((0 < target r \<and> 0 \<le> current r) \<or> (target r < 0 \<and> current r \<le> 0) \<longrightarrow> 0 \<le> n)
              \<and> ((0 < target r \<and> current r < 0) \<or> (target r < 0 \<and> 0 < current r) \<longrightarrow> n \<le> 0)))
    \<and> (target r = 0 \<longrightarrow>
         progressPercentage r =
           (if current r = 0 then NaN else if 0 < current r then Finite 100 else NegInfinity))
    \<and> progressPercentage r \<noteq> PosInfinity
    \<and> (0 < target r \<and> target r \<le> current r \<longrightarrow> progressPercentage r = Finite 100)
    \<and> (target r = 60 \<and> current r = 60 \<longrightarrow> achieved r \<and> progressPercentage r = Finite 100)
    \<and> (target r = 60 \<and> current r = 59 \<longrightarrow> \<not> achieved r \<and> progressPercentage r = Finite 98)
    \<and> (target r = 100 \<and> current r = 150 \<longrightarrow> achieved r \<and> progressPercentage r = Finite 100)
    \<and> (target r = 200 \<and> current r = 29 \<longrightarrow> progressPercentage r = Finite 14)"
proof -
  have a: "achieved r = (target r \<le> current r)"
    and t: "target r = targetMinutes (goal_config g)"
    and p: "progressPercentage r = percentage (current r) (target r)"
    unfolding assms evaluateTimeGoal_eq by simp_all
  have f: "progressPercentage r =
        Math_min 100 (Math_round (times_js (divide_js (current r) (target r)) 100))"
    unfolding p percentage_def ..
  have s: "target r \<noteq> 0 \<longrightarrow>
         (\<exists>n. progressPercentage r = Finite (of_int n) \<and> n \<le> 100
              \<and> ((0 < target r \<and> 0 \<le> current r) \<or> (target r < 0 \<and> current r \<le> 0) \<longrightarrow> 0 \<le> n)
              \<and> ((0 < target r \<and> current r < 0) \<or> (target r < 0 \<and> 0 < current r) \<longrightarrow> n \<le> 0))"
    unfolding p using percentage_sign [of "target r" "current r"] by blast
  have z: "target r = 0 \<longrightarrow>
         progressPercentage r =
           (if current r = 0 then NaN else if 0 < current r then Finite 100 else NegInfinity)"
    unfolding p by (simp add: percentage_eq)
  have i: "progressPercentage r \<noteq> PosInfinity"
    unfolding p using percentage_special by blast
  have h: "0 < target r \<and> target r \<le> current r \<longrightarrow> progressPercentage r = Finite 100"
    unfolding p using percentage_full by blast
  have e1: "target r = 60 \<and> current r = 60 \<longrightarrow> achieved r \<and> progressPercentage r = Finite 100"
    and e2: "target r = 60 \<and> current r = 59 \<longrightarrow> \<not> achieved r \<and> progressPercentage r = Finite 98"
    and e3: "target r = 100 \<and> current r = 150 \<longrightarrow> achieved r \<and> progressPercentage r = Finite 100"
    and e4: "target r = 200 \<and> current r = 29 \<longrightarrow> progressPercentage r = Finite 14"
    unfolding p a by (simp_all add: percentage_examples)
  show ?thesis
    using a t f s z i h e1 e2 e3 e4 by blast
qed

theorem evaluateTimeGoal_percentage_witness:
  "evaluateTimeGoal (fixedZone 0) 1704888000000 (dayGoal 60)
     (oneEntry 1704844800000 1704848400000) =
     \<lparr> achieved = True, current = 60, target = 60,
       progressPercentage = Finite 100, unit = ''minutes'' \<rparr>
   \<and> evaluateTimeGoal (fixedZone 0) 1704888000000 (dayGoal 60)
       (oneEntry 1704844800000 1704848399999) =
     \<lparr> achieved = False, current = 59, target = 60,
       progressPercentage = Finite 98, unit = ''minutes'' \<rparr>
   \<and> evaluateTimeGoal (fixedZone 0) 1704888000000 (dayGoal 100)
       (oneEntry 1704844800000 1704853800000) =
     \<lparr> achieved = True, current = 150, target = 100,
       progressPercentage = Finite 100, unit = ''minutes'' \<rparr>"
proof -
  let ?r1 = "evaluateTimeGoal (fixedZone 0) 1704888000000 (dayGoal 60)
               (oneEntry 1704844800000 1704848400000)"
  let ?r2 = "evaluateTimeGoal (fixedZone 0) 1704888000000 (dayGoal 60)
               (oneEntry 1704844800000 1704848399999)"
  let ?r3 = "evaluateTimeGoal (fixedZone 0) 1704888000000 (dayGoal 100)
               (oneEntry 1704844800000 1704853800000)"
  have c: "current ?r1 = 60" "current ?r2 = 59" "current ?r3 = 150"
    and t: "target ?r1 = 60" "target ?r2 = 60" "target ?r3 = 100"
    and n: "unit ?r1 = ''minutes''" "unit ?r2 = ''minutes''" "unit ?r3 = ''minutes''"
    and m: "evaluation.more ?r1 = ()" "evaluation.more ?r2 = ()" "evaluation.more ?r3 = ()"
    by (simp_all add: evaluateTimeGoal_eq trackedMs_examples minutesOf_examples dayGoal_target)
  from evaluateTimeGoal_percentage [OF refl, of "fixedZone 0" 1704888000000 "dayGoal 60"
      "oneEntry 1704844800000 1704848400000"]
  have "target ?r1 = 60 \<and> current ?r1 = 60 \<longrightarrow>
          achieved ?r1 \<and> progressPercentage ?r1 = Finite 100" by blast
  with c t have "achieved ?r1 \<and> progressPercentage ?r1 = Finite 100" by blast
  moreover from evaluateTimeGoal_percentage [OF refl, of "fixedZone 0" 1704888000000 "dayGoal 60"
      "oneEntry 1704844800000 1704848399999"]
  have "target ?r2 = 60 \<and> current ?r2 = 59 \<longrightarrow>
          \<not> achieved ?r2 \<and> progressPercentage ?r2 = Finite 98" by blast
  with c t have "\<not> achieved ?r2 \<and> progressPercentage ?r2 = Finite 98" by blast
  moreover from evaluateTimeGoal_percentage [OF refl, of "fixedZone 0" 1704888000000 "dayGoal 100"
      "oneEntry 1704844800000 1704853800000"]
  have "target ?r3 = 100 \<and> current ?r3 = 150 \<longrightarrow>
          achieved ?r3 \<and> progressPercentage ?r3 = Finite 100" by blast
  with c t have "achieved ?r3 \<and> progressPercentage ?r3 = Finite 100" by blast
  ultimately show ?thesis
    using c t n by (simp add: evaluation.equality)
qed

text \<open>
  In a zone whose offsets differ by less than a day, the evaluation of a count goal
  and of a streak goal returns a result, whose current is 0 or more.
\<close>

lemma calculateStreak_some:
  assumes "withinADay z"
  shows "\<exists>n. calculateStreak z today acts ids st = Some n \<and> 0 \<le> n"
proof -
  have "far z today (nat (366 * msPerDay))"
    by (rule far_exists [OF assms])
  moreover have "2 < nat (366 * msPerDay)"
    by (simp add: msPerDay_def)
  ultimately show ?thesis
    by (simp only: calculateStreak_runUntil) simp
qed

lemma evaluateCountGoal_fields:
  assumes "withinADay z"
  shows "\<exists>r. evaluateCountGoal z now g activities = Some r
       \<and> target r = targetCount (goal_config g) \<and> 0 \<le> current r
       \<and> progressPercentage r = percentage (current r) (target r)"
proof -
  obtain n where "countChecksInRange_goal z activities (activityIdsOf (goal_config g))
                    (fst (getPeriodRange z (period (goal_config g)) now))
                    (snd (getPeriodRange z (period (goal_config g)) now)) = Some n" and "0 \<le> n"
    unfolding countChecksInRange_goal_def using countIds_nonneg [OF assms, of 0] by blast
  then show ?thesis
    by (simp add: evaluateCountGoal_def Let_def split_beta)
qed

lemma evaluateStreakGoal_fields:
  assumes "withinADay z"
  shows "\<exists>r. evaluateStreakGoal z now g activities = Some r
       \<and> target r = targetDays (goal_config g) \<and> 0 \<le> current r
       \<and> progressPercentage r = percentage (current r) (target r)"
proof -
  let ?act = "case activityIdsOf (goal_config g) of [] \<Rightarrow> None
              | ident # _ \<Rightarrow> map_of activities ident"
  obtain n where "calculateStreak z now activities (activityIdsOf (goal_config g))
                    (case ?act of None \<Rightarrow> ''check'' | Some a \<Rightarrow> activity_type a) = Some n"
    and "0 \<le> n"
    using calculateStreak_some [OF assms] by blast
  then show ?thesis
    by (simp add: evaluateStreakGoal_def Let_def)
qed

text \<open>
  C7, as the claim states it, fails: a time goal with a target of 0 and nothing
  tracked divides 0 by 0, and the percentage is \<open>NaN\<close>.
\<close>

theorem evaluateGoal_zero_target_counterexample:
  "evaluateGoal (fixedZone 0) 1704888000000 (dayGoal 0) [] =
     Some \<lparr> achieved = True, current = 0, target = 0,
            progressPercentage = NaN, unit = ''minutes'' \<rparr>"
proof -
  show ?thesis
    by (simp add: trackedMs_nothing evaluateGoal_def evaluateTimeGoal_eq minutesOf_examples percentage_examples
        dayGoal_target) (simp add: dayGoal_def)
qed

text \<open>
  C7, amended. For every goal of type time, and for every goal of type count or
  streak in a zone whose offsets differ by less than a day (every zone of constant
  offset is one), evaluation returns a result whose percentage is \<open>NaN\<close> exactly when target and current are both 0, is
  \<open>-Infinity\<close> exactly when the target is 0 and current is negative (which a count
  or a streak never is), and is never \<open>Infinity\<close>: with a target of 0 and a positive
  current it is 100, and with a target below 0 it is a finite number.
\<close>

theorem evaluateGoal_percentage_special:
  assumes "goal_type g = ''time'' \<or> goal_type g = ''count'' \<or> goal_type g = ''streak''"
    and "goal_type g = ''time'' \<or> withinADay z"
  shows "\<exists>r. evaluateGoal z now g activities = Some r
     \<and> target r = (if goal_type g = ''time'' then targetMinutes (goal_config g)
                   else if goal_type g = ''count'' then targetCount (goal_config g)
                   else targetDays (goal_config g))
     \<and> (progressPercentage r = NaN \<longleftrightarrow> target r = 0 \<and> current r = 0)
     \<and> (progressPercentage r = NegInfinity \<longleftrightarrow> target r = 0 \<and> current r < 0)
     \<and> progressPercentage r \<noteq> PosInfinity
     \<and> (target r = 0 \<and> 0 < current r \<longrightarrow> progressPercentage r = Finite 100)
     \<and> (target r < 0 \<longrightarrow> (\<exists>v. progressPercentage r = Finite v))
     \<and> (goal_type g \<noteq> ''time'' \<longrightarrow> 0 \<le> current r)"
proof -
  let ?t = "if goal_type g = ''time'' then targetMinutes (goal_config g)
            else if goal_type g = ''count'' then targetCount (goal_config g)
            else targetDays (goal_config g)"
  have "\<exists>r. evaluateGoal z now g activities = Some r \<and> target r = ?t
          \<and> progressPercentage r = percentage (current r) (target r)
          \<and> (goal_type g \<noteq> ''time'' \<longrightarrow> 0 \<le> current r)"
  proof -
    consider "goal_type g = ''time''"
      | "goal_type g \<noteq> ''time''" "goal_type g = ''count''"
      | "goal_type g \<noteq> ''time''" "goal_type g \<noteq> ''count''" "goal_type g = ''streak''"
      using assms(1) by blast
    then show ?thesis
    proof cases
      case 1
      then show ?thesis
        by (simp add: evaluateGoal_def evaluateTimeGoal_eq)
    next
      case 2
      with assms(2) have "withinADay z" by simp
      from evaluateCountGoal_fields [OF this, of now g activities] 2 show ?thesis
        by (auto simp: evaluateGoal_def)
    next
      case 3
      with assms(2) have "withinADay z" by simp
      from evaluateStreakGoal_fields [OF this, of now g activities] 3 show ?thesis
        by (auto simp: evaluateGoal_def)
    qed
  qed
  then obtain r where r: "evaluateGoal z now g activities = Some r" "target r = ?t"
    "progressPercentage r = percentage (current r) (target r)"
    "goal_type g \<noteq> ''time'' \<longrightarrow> 0 \<le> current r"
    by blast
  have n: "progressPercentage r = NaN \<longleftrightarrow> target r = 0 \<and> current r = 0"
    and m: "progressPercentage r = NegInfinity \<longleftrightarrow> target r = 0 \<and> current r < 0"
    and i: "progressPercentage r \<noteq> PosInfinity"
    unfolding r(3) using percentage_special [of "current r" "target r"] by blast+
  have z: "target r = 0 \<and> 0 < current r \<longrightarrow> progressPercentage r = Finite 100"
    and f: "target r < 0 \<longrightarrow> (\<exists>v. progressPercentage r = Finite v)"
    unfolding r(3) by (simp_all add: percentage_eq)
  show ?thesis
    using r(1,2,4) n m i z f by blast
qed

theorem evaluateGoal_percentage_special_witness:
  "evaluateGoal (fixedZone 0) 1704888000000 (dayGoal (- 10)) (oneEntry 1704844800000 1704845100000) =
     Some \<lparr> achieved = True, current = 5, target = - 10,
            progressPercentage = Finite (- 50), unit = ''minutes'' \<rparr>
   \<and> (\<exists>r. evaluateGoal (fixedZone 0) 1704888000000 (dayGoal (- 10)) (oneEntry 1704844800000 1704845100000)
            = Some r \<and> progressPercentage r \<noteq> NaN \<and> progressPercentage r \<noteq> PosInfinity
              \<and> progressPercentage r \<noteq> NegInfinity)"
proof -
  have t: "goal_type (dayGoal (- 10)) = ''time''"
    by (simp add: dayGoal_def)
  have e: "evaluateGoal (fixedZone 0) 1704888000000 (dayGoal (- 10)) (oneEntry 1704844800000 1704845100000) =
     Some \<lparr> achieved = True, current = 5, target = - 10,
            progressPercentage = Finite (- 50), unit = ''minutes'' \<rparr>"
    by (simp add: evaluateGoal_def t evaluateTimeGoal_eq trackedMs_examples minutesOf_examples
        percentage_examples dayGoal_target)
  from evaluateGoal_percentage_special [of "dayGoal (- 10)" "fixedZone 0" 1704888000000
      "oneEntry 1704844800000 1704845100000"] t e
  show ?thesis by auto
qed

end
